theory Spec2Isabelle
  imports Main "HOL-Library.Word" "HOL-Library.List_Lexorder" "HOL-Library.Multiset"
begin

section \<open>JavaScript strings\<close>

text \<open>
  A JavaScript string is a sequence of UTF-16 code units. \<^verbatim>\<open>charAt\<close>, \<^verbatim>\<open>slice\<close>, \<^verbatim>\<open>+\<close>
  and the default comparison of \<^verbatim>\<open>Array.prototype.sort\<close> work on code units; a regular
  expression with the flag \<^verbatim>\<open>u\<close> works on code points, reading a lead surrogate followed
  by a trail surrogate as one code point.
\<close>

type_synonym code_unit = "16 word"

type_synonym jsstring = "code_unit list"

definition lit :: "string \<Rightarrow> jsstring" where
  "lit s = map of_char s"

definition tab :: jsstring where
  "tab = [0x09]"

definition isLeadSurrogate :: "code_unit \<Rightarrow> bool" where
  "isLeadSurrogate u \<longleftrightarrow> 0xD800 \<le> u \<and> u \<le> 0xDBFF"

definition isTrailSurrogate :: "code_unit \<Rightarrow> bool" where
  "isTrailSurrogate u \<longleftrightarrow> 0xDC00 \<le> u \<and> u \<le> 0xDFFF"

text \<open>The code points of a string, each kept as the one or two code units that encode it.\<close>

fun codePoints :: "jsstring \<Rightarrow> jsstring list" where
  "codePoints [] = []"
| "codePoints [u] = [[u]]"
| "codePoints (u # v # s) =
     (if isLeadSurrogate u \<and> isTrailSurrogate v then [u, v] # codePoints s
      else [u] # codePoints (v # s))"

text \<open>\<^verbatim>\<open>str.charAt(0)\<close> and \<^verbatim>\<open>str.slice(1)\<close>: the first code unit (or the empty string), and
  the rest.\<close>

definition charAt0 :: "jsstring \<Rightarrow> jsstring" where
  "charAt0 str = take 1 str"

definition slice1 :: "jsstring \<Rightarrow> jsstring" where
  "slice1 str = drop 1 str"

text \<open>\<^verbatim>\<open>Array.prototype.join\<close> on an array of strings.\<close>

fun join :: "jsstring \<Rightarrow> jsstring list \<Rightarrow> jsstring" where
  "join sep [] = []"
| "join sep [x] = x"
| "join sep (x # y # ys) = x @ sep @ join sep (y # ys)"

text \<open>
  The Unicode data of the JavaScript engine is not part of the repository, so it is a
  parameter of the model: \<open>letter\<close> says whether the class \<^verbatim>\<open>\p{L}\<close>, under the flags
  \<^verbatim>\<open>iu\<close>, matches a code point; \<open>toUpperCase\<close> and \<open>toLowerCase\<close> are the string methods
  of these names (they map strings, not single characters: a case mapping may change the
  length and may depend on the context).
\<close>

record unicode =
  letter :: "jsstring \<Rightarrow> bool"
  toUpperCase :: "jsstring \<Rightarrow> jsstring"
  toLowerCase :: "jsstring \<Rightarrow> jsstring"

text \<open>The class \<^verbatim>\<open>\d\<close> is \<^verbatim>\<open>[0-9]\<close>, with and without the flags.\<close>

definition digit :: "jsstring \<Rightarrow> bool" where
  "digit c = (case c of [u] \<Rightarrow> 0x30 \<le> u \<and> u \<le> 0x39 | _ \<Rightarrow> False)"

text \<open>The class \<^verbatim>\<open>[\p{L}\d]\<close> of the three regular expressions, on one code point.\<close>

definition letterOrDigit :: "unicode \<Rightarrow> jsstring \<Rightarrow> bool" where
  "letterOrDigit U c \<longleftrightarrow> letter U c \<or> digit c"

subsection \<open>The ASCII part of the Unicode data\<close>

definition ascii_letter :: "jsstring \<Rightarrow> bool" where
  "ascii_letter c =
     (case c of [u] \<Rightarrow> (0x41 \<le> u \<and> u \<le> 0x5A) \<or> (0x61 \<le> u \<and> u \<le> 0x7A) | _ \<Rightarrow> False)"

definition ascii_upper :: "code_unit \<Rightarrow> code_unit" where
  "ascii_upper u = (if 0x61 \<le> u \<and> u \<le> 0x7A then u - 0x20 else u)"

definition ascii_lower :: "code_unit \<Rightarrow> code_unit" where
  "ascii_lower u = (if 0x41 \<le> u \<and> u \<le> 0x5A then u + 0x20 else u)"

definition isASCII :: "jsstring \<Rightarrow> bool" where
  "isASCII s = list_all (\<lambda>u. u < 0x80) s"

text \<open>A code point of the ASCII range.\<close>

definition asciiCp :: "jsstring \<Rightarrow> bool" where
  "asciiCp c = (case c of [u] \<Rightarrow> u < 0x80 | _ \<Rightarrow> False)"

text \<open>Unicode data that is what every engine has on ASCII: the letters are \<^verbatim>\<open>A-Z\<close> and
  \<^verbatim>\<open>a-z\<close>, and the case mappings of an ASCII string shift these letters only.\<close>

definition ascii_conformant :: "unicode \<Rightarrow> bool" where
  "ascii_conformant U \<longleftrightarrow>
     (\<forall>u. u < 0x80 \<longrightarrow> letter U [u] = ascii_letter [u]) \<and>
     (\<forall>s. isASCII s \<longrightarrow> toUpperCase U s = map ascii_upper s) \<and>
     (\<forall>s. isASCII s \<longrightarrow> toLowerCase U s = map ascii_lower s)"

text \<open>The smallest such data: no letter and no case mapping outside ASCII.\<close>

definition ascii_unicode :: unicode where
  "ascii_unicode =
     \<lparr>letter = ascii_letter, toUpperCase = map ascii_upper, toLowerCase = map ascii_lower\<rparr>"

section \<open>src/utils.ts\<close>

text \<open>\<^verbatim>\<open>/^[\p{L}\d]+$/iu.test(str)\<close>: one code point or more, each of the class.\<close>

definition test_lettersDigits :: "unicode \<Rightarrow> jsstring \<Rightarrow> bool" where
  "test_lettersDigits U str \<longleftrightarrow>
     codePoints str \<noteq> [] \<and> list_all (letterOrDigit U) (codePoints str)"

text \<open>
  \<^verbatim>\<open>str.replace(/([\p{L}\d])([\p{L}\d]*)/giu, (g0, g1, g2) => g1.toUpperCase() + g2.toLowerCase())\<close>
  on the code points of \<open>str\<close>: a match starts at the first code point of the class, \<open>g1\<close>
  is that code point and \<open>g2\<close> the longest run of class code points after it; code points
  outside a match are copied.
\<close>

function replace_words :: "unicode \<Rightarrow> jsstring list \<Rightarrow> jsstring" where
  "replace_words U [] = []"
| "replace_words U (c # cs) =
     (if letterOrDigit U c
      then toUpperCase U c @ toLowerCase U (concat (takeWhile (letterOrDigit U) cs))
             @ replace_words U (dropWhile (letterOrDigit U) cs)
      else c @ replace_words U cs)"
  by pat_completeness auto
termination
  by (relation "measure (\<lambda>(U, cs). length cs)")
     (auto simp: length_dropWhile_le less_Suc_eq_le)

text \<open>\<^verbatim>\<open>str.replace(/[^\p{L}\d]/giu, "")\<close>: every code point outside the class is removed.\<close>

definition remove_others :: "unicode \<Rightarrow> jsstring \<Rightarrow> jsstring" where
  "remove_others U str = concat (filter (letterOrDigit U) (codePoints str))"

definition toPascalCase :: "unicode \<Rightarrow> jsstring \<Rightarrow> jsstring" where
  "toPascalCase U str =
     (if test_lettersDigits U str then toUpperCase U (charAt0 str) @ slice1 str
      else remove_others U (replace_words U (codePoints str)))"

text \<open>
  \<^verbatim>\<open>parseFloat\<close> on a string of at most one code unit, as \<open>sanitizeFieldName\<close> calls it: a
  decimal digit is its value, and everything else (the empty string, white space, a sign,
  a dot, a letter) is \<^verbatim>\<open>NaN\<close>, here \<open>None\<close>.
\<close>

definition parseFloat1 :: "jsstring \<Rightarrow> nat option" where
  "parseFloat1 s =
     (case s of [u] \<Rightarrow> if 0x30 \<le> u \<and> u \<le> 0x39 then Some (unat u - 0x30) else None
      | _ \<Rightarrow> None)"

definition sanitizeFieldName :: "jsstring \<Rightarrow> jsstring" where
  "sanitizeFieldName name =
     (if parseFloat1 (charAt0 name) \<noteq> None then lit ''\"'' @ name @ lit ''\"''
      else name)"

section \<open>src/lib.ts\<close>

subsection \<open>The schema\<close>

text \<open>
  The rows come from \<^verbatim>\<open>JSON.parse\<close>. A property that is absent (or \<^verbatim>\<open>null\<close>) is \<open>None\<close>;
  \<open>opts_values\<close> is an array of strings and \<open>opts_maxSelect\<close> an integer when present, as
  the schema's data model has them.
\<close>

record options =
  opts_values :: "jsstring list option"
  opts_maxSelect :: "int option"

record fieldSchema =
  field_name :: jsstring
  field_type :: jsstring
  field_required :: bool
  field_options :: "options option"

record collection =
  row_name :: jsstring
  row_schema :: "fieldSchema list option"

subsection \<open>Errors\<close>

text \<open>\<open>Error msg\<close> is \<^verbatim>\<open>throw new Error(msg)\<close> of \<open>createTypeField\<close>; \<open>TypeError\<close> is the
  engine's exception for reading a property of \<^verbatim>\<open>undefined\<close> or \<^verbatim>\<open>null\<close>.\<close>

datatype js_error = Error jsstring | TypeError

definition unknownType :: "jsstring \<Rightarrow> js_error" where
  "unknownType t = Error (lit ''unknown type '' @ t @ lit '' found in schema'')"

subsection \<open>The rendering table\<close>

text \<open>A property of the table is a string or a function of the field's options.\<close>

datatype typeStringOrFunc =
  TypeString jsstring
| TypeFunc "options option \<Rightarrow> js_error + jsstring"

text \<open>\<^verbatim>\<open>(opts) => opts.values ? opts.values.map((val) => `"${val}"`).join(" | ") : "string"\<close>.
  An array is truthy, the empty one too.\<close>

definition select_type :: "options option \<Rightarrow> js_error + jsstring" where
  "select_type opts =
     (case opts of
        None \<Rightarrow> Inl TypeError
      | Some os \<Rightarrow>
          (case opts_values os of
             Some vals \<Rightarrow>
               Inr (join (lit '' | '') (map (\<lambda>val. lit ''\"'' @ val @ lit ''\"'') vals))
           | None \<Rightarrow> Inr (lit ''string'')))"

text \<open>\<^verbatim>\<open>(opts) => opts.maxSelect && opts.maxSelect > 1 ? "string[]" : "string"\<close>. The number
  0 is falsy.\<close>

definition file_type :: "options option \<Rightarrow> js_error + jsstring" where
  "file_type opts =
     (case opts of
        None \<Rightarrow> Inl TypeError
      | Some os \<Rightarrow>
          (case opts_maxSelect os of
             Some n \<Rightarrow> if n \<noteq> 0 \<and> n > 1 then Inr (lit ''string[]'') else Inr (lit ''string'')
           | None \<Rightarrow> Inr (lit ''string'')))"

text \<open>The own properties of the object literal \<open>pbSchemaTypescriptMap\<close>.\<close>

definition pbSchemaTypescriptMap :: "jsstring \<Rightarrow> typeStringOrFunc option" where
  "pbSchemaTypescriptMap key =
     (if key = lit ''text'' then Some (TypeString (lit ''string''))
      else if key = lit ''number'' then Some (TypeString (lit ''number''))
      else if key = lit ''bool'' then Some (TypeString (lit ''boolean''))
      else if key = lit ''email'' then Some (TypeString (lit ''string''))
      else if key = lit ''url'' then Some (TypeString (lit ''string''))
      else if key = lit ''date'' then Some (TypeString (lit ''string''))
      else if key = lit ''select'' then Some (TypeFunc select_type)
      else if key = lit ''json'' then Some (TypeString (lit ''null | unknown''))
      else if key = lit ''file'' then Some (TypeFunc file_type)
      else if key = lit ''relation'' then Some (TypeString (lit ''string''))
      else if key = lit ''user'' then Some (TypeString (lit ''string''))
      else None)"

text \<open>
  An object literal inherits the properties of \<^verbatim>\<open>Object.prototype\<close>, and both the operator
  \<^verbatim>\<open>in\<close> and the property access of \<open>createTypeField\<close> find them. The file is an ES module
  (strict code), so \<open>createTypeField\<close> calls an inherited method with \<^verbatim>\<open>this\<close> undefined:
  \<^verbatim>\<open>toString\<close> returns \<^verbatim>\<open>"[object Undefined]"\<close>; \<^verbatim>\<open>constructor\<close> returns an object, which the
  template literal prints as \<^verbatim>\<open>"[object Object]"\<close>; \<^verbatim>\<open>isPrototypeOf\<close> returns \<^verbatim>\<open>false\<close> for an
  argument that is no object before it looks at \<^verbatim>\<open>this\<close>; the other methods start by
  converting \<^verbatim>\<open>this\<close> to an object and throw a TypeError. \<^verbatim>\<open>__proto__\<close> is no function but
  the prototype object itself, printed as \<^verbatim>\<open>"[object Object]"\<close>.
\<close>

definition Object_prototype :: "jsstring \<Rightarrow> typeStringOrFunc option" where
  "Object_prototype key =
     (if key = lit ''constructor'' then Some (TypeFunc (\<lambda>opts. Inr (lit ''[object Object]'')))
      else if key = lit ''toString'' then Some (TypeFunc (\<lambda>opts. Inr (lit ''[object Undefined]'')))
      else if key = lit ''isPrototypeOf'' then
        Some (TypeFunc (\<lambda>opts. case opts of None \<Rightarrow> Inr (lit ''false'') | Some os \<Rightarrow> Inl TypeError))
      else if key \<in> set [lit ''hasOwnProperty'', lit ''propertyIsEnumerable'',
          lit ''toLocaleString'', lit ''valueOf'', lit ''__defineGetter__'',
          lit ''__defineSetter__'', lit ''__lookupGetter__'', lit ''__lookupSetter__'']
        then Some (TypeFunc (\<lambda>opts. Inl TypeError))
      else if key = lit ''__proto__'' then Some (TypeString (lit ''[object Object]''))
      else None)"

text \<open>\<^verbatim>\<open>pbSchemaTypescriptMap[key]\<close>; \<^verbatim>\<open>key in pbSchemaTypescriptMap\<close> holds when it is not
  \<open>None\<close>.\<close>

definition getProperty :: "jsstring \<Rightarrow> typeStringOrFunc option" where
  "getProperty key =
     (case pbSchemaTypescriptMap key of Some v \<Rightarrow> Some v | None \<Rightarrow> Object_prototype key)"

subsection \<open>Fields, record types, the enumeration and the mapping\<close>

text \<open>The first statements of \<open>createTypeField\<close>, which compute its constant
  \<open>typeString\<close>: the check of the type, the property access, and the call when the
  property is a function.\<close>

definition renderFieldType :: "fieldSchema \<Rightarrow> js_error + jsstring" where
  "renderFieldType recordSchema =
     (case getProperty (field_type recordSchema) of
        None \<Rightarrow> Inl (unknownType (field_type recordSchema))
      | Some (TypeFunc f) \<Rightarrow> f (field_options recordSchema)
      | Some (TypeString s) \<Rightarrow> Inr s)"

definition createTypeField :: "fieldSchema \<Rightarrow> js_error + jsstring" where
  "createTypeField recordSchema =
     (case renderFieldType recordSchema of
        Inl e \<Rightarrow> Inl e
      | Inr typeString \<Rightarrow>
          Inr (tab @ sanitizeFieldName (field_name recordSchema)
               @ (if field_required recordSchema then [] else lit ''?'')
               @ lit '': '' @ typeString @ lit ''\<newline>''))"

text \<open>The loop \<^verbatim>\<open>schema.forEach((recordSchema) => { typeString += createTypeField(recordSchema) })\<close>;
  an exception ends it.\<close>

fun forEach_field :: "fieldSchema list \<Rightarrow> jsstring \<Rightarrow> js_error + jsstring" where
  "forEach_field [] typeString = Inr typeString"
| "forEach_field (recordSchema # schema) typeString =
     (case createTypeField recordSchema of
        Inl e \<Rightarrow> Inl e
      | Inr line \<Rightarrow> forEach_field schema (typeString @ line))"

definition createRecordType ::
  "unicode \<Rightarrow> jsstring \<Rightarrow> fieldSchema list \<Rightarrow> js_error + jsstring" where
  "createRecordType U name schema =
     (case forEach_field schema
             (lit ''export type '' @ toPascalCase U name @ lit ''Record = {\<newline>'') of
        Inl e \<Rightarrow> Inl e
      | Inr typeString \<Rightarrow> Inr (typeString @ lit ''}''))"

fun forEach_enum :: "unicode \<Rightarrow> jsstring list \<Rightarrow> jsstring \<Rightarrow> jsstring" where
  "forEach_enum U [] typeString = typeString"
| "forEach_enum U (name # collectionNames) typeString =
     forEach_enum U collectionNames
       (typeString @ tab @ toPascalCase U name @ lit '' = \"'' @ name @ lit ''\",\<newline>'')"

definition createCollectionEnum :: "unicode \<Rightarrow> jsstring list \<Rightarrow> jsstring" where
  "createCollectionEnum U collectionNames =
     forEach_enum U collectionNames (lit ''export enum Collections {\<newline>'') @ lit ''}''"

fun forEach_record :: "unicode \<Rightarrow> jsstring list \<Rightarrow> jsstring \<Rightarrow> jsstring" where
  "forEach_record U [] typeString = typeString"
| "forEach_record U (name # collectionNames) typeString =
     forEach_record U collectionNames
       (typeString @ tab @ name @ lit '': '' @ toPascalCase U name @ lit ''Record\<newline>'')"

definition createCollectionRecord :: "unicode \<Rightarrow> jsstring list \<Rightarrow> jsstring" where
  "createCollectionRecord U collectionNames =
     forEach_record U collectionNames (lit ''export type CollectionRecords = {\<newline>'') @ lit ''}''"

subsection \<open>The document\<close>

text \<open>
  The loop of \<open>generate\<close> over the rows, on the state \<open>(collectionNames, recordTypes)\<close>. A
  string is truthy when it is not empty, an array always; an exception of
  \<open>createRecordType\<close> ends the loop and \<open>generate\<close>.
\<close>

fun forEach_row ::
  "unicode \<Rightarrow> collection list \<Rightarrow> jsstring list \<times> jsstring list
    \<Rightarrow> js_error + jsstring list \<times> jsstring list" where
  "forEach_row U [] st = Inr st"
| "forEach_row U (row # results) (collectionNames, recordTypes) =
     (let collectionNames' =
            (if row_name row \<noteq> [] then collectionNames @ [row_name row] else collectionNames)
      in case row_schema row of
           None \<Rightarrow> forEach_row U results (collectionNames', recordTypes)
         | Some schema \<Rightarrow>
             (case createRecordType U (row_name row) schema of
                Inl e \<Rightarrow> Inl e
              | Inr recordType \<Rightarrow>
                  forEach_row U results (collectionNames', recordTypes @ [recordType])))"

definition header :: jsstring where
  "header = lit ''// This file was @generated using pocketbase-typegen''"

text \<open>
  The array \<open>fileParts\<close> of \<open>generate\<close>, which \<open>generate\<close> joins with blank lines.
  \<^verbatim>\<open>sort()\<close> without a comparison function orders strings by their UTF-16 code units,
  which is the order of \<open>jsstring\<close>. The order is linear, so the sorted array does not
  depend on the engine's algorithm; \<open>sort\<close> is one.
\<close>

definition fileParts :: "unicode \<Rightarrow> collection list \<Rightarrow> js_error + jsstring list" where
  "fileParts U results =
     (case forEach_row U results ([], []) of
        Inl e \<Rightarrow> Inl e
      | Inr (collectionNames, recordTypes) \<Rightarrow>
          (let sortedCollectionNames = sort collectionNames
           in Inr ([header, createCollectionEnum U sortedCollectionNames]
                   @ sort recordTypes
                   @ [createCollectionRecord U sortedCollectionNames])))"

definition generate :: "unicode \<Rightarrow> collection list \<Rightarrow> js_error + jsstring" where
  "generate U results =
     (case fileParts U results of
        Inl e \<Rightarrow> Inl e
      | Inr parts \<Rightarrow> Inr (join (lit ''\<newline>\<newline>'') parts))"

text \<open>
  A call of \<open>generate\<close> as an engine runs it. ECMAScript leaves the algorithm of
  \<^verbatim>\<open>Array.prototype.sort\<close> to the engine and requires of the result only that it holds the
  elements of the array in an order that the comparison accepts: \<open>engine_sorts\<close>. Nothing
  else in \<open>generate\<close> is left to the run: it reads no clock, no random number and no
  variable that a call changes. \<open>generate_call U results out\<close> says that a call on \<open>results\<close>
  can end with \<open>out\<close>, an exception or a document.
\<close>

definition engine_sorts :: "jsstring list \<Rightarrow> jsstring list \<Rightarrow> bool" where
  "engine_sorts array sorted_array \<longleftrightarrow> mset sorted_array = mset array \<and> sorted sorted_array"

inductive generate_call :: "unicode \<Rightarrow> collection list \<Rightarrow> js_error + jsstring \<Rightarrow> bool"
  for U :: unicode and results :: "collection list" where
  throws:
    "forEach_row U results ([], []) = Inl e \<Longrightarrow> generate_call U results (Inl e)"
| returns:
    "forEach_row U results ([], []) = Inr (collectionNames, recordTypes) \<Longrightarrow>
     engine_sorts collectionNames sortedCollectionNames \<Longrightarrow>
     engine_sorts recordTypes sortedRecordTypes \<Longrightarrow>
     generate_call U results
       (Inr (join (lit ''\<newline>\<newline>'')
          ([header, createCollectionEnum U sortedCollectionNames]
           @ sortedRecordTypes
           @ [createCollectionRecord U sortedCollectionNames])))"

section \<open>Notions and examples of the specification\<close>

text \<open>The array \<open>collectionNames\<close> of \<open>generate\<close> after its loop (lemma
  \<open>forEach_row_Inr\<close> below): the names that are not empty, in the order of the rows.\<close>

definition collectionNames :: "collection list \<Rightarrow> jsstring list" where
  "collectionNames results = filter (\<lambda>name. name \<noteq> []) (map row_name results)"

text \<open>The number of a code point, and a string as the sequence of these numbers: the
  order of the specification's words \<^emph>\<open>code-point order\<close> is the lexicographic order of
  these sequences.\<close>

definition codePointValue :: "jsstring \<Rightarrow> nat" where
  "codePointValue c =
     (case c of
        [u] \<Rightarrow> unat u
      | [u, v] \<Rightarrow> 0x10000 + (unat u - 0xD800) * 0x400 + (unat v - 0xDC00)
      | _ \<Rightarrow> 0)"

definition codePointValues :: "jsstring \<Rightarrow> nat list" where
  "codePointValues s = map codePointValue (codePoints s)"

text \<open>A string of code units that are not surrogates: its code points are its code
  units.\<close>

definition noSurrogates :: "jsstring \<Rightarrow> bool" where
  "noSurrogates s = list_all (\<lambda>u. \<not> isLeadSurrogate u \<and> \<not> isTrailSurrogate u) s"

text \<open>The field of the specification's example:
  \<^verbatim>\<open>{name:"status", type:"select", required:true, options:{values:["open","closed"]}}\<close>.\<close>

definition statusField :: fieldSchema where
  "statusField =
     \<lparr>field_name = lit ''status'', field_type = lit ''select'', field_required = True,
      field_options =
        Some \<lparr>opts_values = Some [lit ''open'', lit ''closed''], opts_maxSelect = None\<rparr>\<rparr>"

text \<open>
  Unicode data with the ASCII letters and three more: U+FF71 HALFWIDTH KATAKANA LETTER A, a
  letter without case; U+10428 DESERET SMALL LETTER LONG I, outside the Basic Multilingual
  Plane (in UTF-16 the code units D801 DC28), and its upper case U+10400 (D801 DC00). A
  lone surrogate has no case mapping.
\<close>

definition sample_unicode :: unicode where
  "sample_unicode =
     \<lparr>letter = (\<lambda>c. ascii_letter c \<or> c = [0xFF71] \<or> c = [0xD801, 0xDC28] \<or> c = [0xD801, 0xDC00]),
      toUpperCase = (\<lambda>s. concat (map (\<lambda>c. if c = [0xD801, 0xDC28] then [0xD801, 0xDC00]
                                           else map ascii_upper c) (codePoints s))),
      toLowerCase = (\<lambda>s. concat (map (\<lambda>c. if c = [0xD801, 0xDC00] then [0xD801, 0xDC28]
                                           else map ascii_lower c) (codePoints s)))\<rparr>"

text \<open>
  The specification's words for an identifier of a string with a separator: the words are
  the maximal runs of letters and digits; each has its first character upper-cased and
  the remainder lower-cased; the results are concatenated and everything else is
  dropped.
\<close>

function words :: "unicode \<Rightarrow> jsstring list \<Rightarrow> jsstring list list" where
  "words U [] = []"
| "words U (c # cs) =
     (if letterOrDigit U c
      then (c # takeWhile (letterOrDigit U) cs) # words U (dropWhile (letterOrDigit U) cs)
      else words U cs)"
  by pat_completeness auto
termination
  by (relation "measure (\<lambda>(U, cs). length cs)")
     (auto simp: length_dropWhile_le less_Suc_eq_le)

text \<open>A word with its first code point upper-cased and the remainder lower-cased.\<close>

definition capitalize :: "unicode \<Rightarrow> jsstring list \<Rightarrow> jsstring" where
  "capitalize U w = (case w of [] \<Rightarrow> [] | c # cs \<Rightarrow> toUpperCase U c @ toLowerCase U (concat cs))"

text \<open>A string that the removal of the other characters keeps as it is, wherever it
  stands: it is not empty, its code points are letters and digits, and it neither starts
  with a trail surrogate nor ends with a lead surrogate (so it shares no code point with
  its neighbours).\<close>

definition survives :: "unicode \<Rightarrow> jsstring \<Rightarrow> bool" where
  "survives U s \<longleftrightarrow>
     s \<noteq> [] \<and> \<not> isTrailSurrogate (hd s) \<and> \<not> isLeadSurrogate (last s) \<and>
     list_all (letterOrDigit U) (codePoints s)"

text \<open>A schema of two collections, for the examples: \<^verbatim>\<open>posts\<close> with a required text field
  and a select field, and \<^verbatim>\<open>users\<close> without a schema.\<close>

definition exampleRows :: "collection list" where
  "exampleRows =
     [\<lparr>row_name = lit ''posts'',
       row_schema = Some [\<lparr>field_name = lit ''title'', field_type = lit ''text'',
                            field_required = True, field_options = None\<rparr>, statusField]\<rparr>,
      \<lparr>row_name = lit ''users'', row_schema = None\<rparr>]"










section \<open>Strings and code points\<close>

lemma concat_codePoints: "concat (codePoints s) = s"
  by (induction s rule: codePoints.induct) auto

lemma codePoints_Nil_iff: "codePoints s = [] \<longleftrightarrow> s = []"
  by (cases s rule: codePoints.cases) auto

lemma ascii_not_lead: "u < 0x80 \<Longrightarrow> \<not> isLeadSurrogate u"
  unfolding isLeadSurrogate_def by unat_arith

lemma codePoints_ascii: "isASCII s \<Longrightarrow> codePoints s = map (\<lambda>u. [u]) s"
  by (induction s rule: codePoints.induct) (auto simp: isASCII_def ascii_not_lead)

lemma ascii_upper_ascii: "u < 0x80 \<Longrightarrow> ascii_upper u < 0x80"
  unfolding ascii_upper_def by (auto; unat_arith)

lemma ascii_lower_ascii: "u < 0x80 \<Longrightarrow> ascii_lower u < 0x80"
  unfolding ascii_lower_def by (auto; unat_arith)

lemma ascii_conformant_ascii_unicode: "ascii_conformant ascii_unicode"
  by (simp add: ascii_conformant_def ascii_unicode_def)

lemma isASCII_append: "isASCII (a @ b) \<longleftrightarrow> isASCII a \<and> isASCII b"
  by (simp add: isASCII_def)

lemma isASCII_map_upper: "isASCII s \<Longrightarrow> isASCII (map ascii_upper s)"
  by (induction s) (auto simp: isASCII_def ascii_upper_ascii)

lemma isASCII_map_lower: "isASCII s \<Longrightarrow> isASCII (map ascii_lower s)"
  by (induction s) (auto simp: isASCII_def ascii_lower_ascii)

lemma letterOrDigit_ascii:
  "ascii_conformant U \<Longrightarrow> u < 0x80 \<Longrightarrow> letterOrDigit U [u] = letterOrDigit ascii_unicode [u]"
  by (simp add: letterOrDigit_def ascii_conformant_def ascii_unicode_def)

section \<open>Identifiers of ASCII names\<close>

text \<open>On an ASCII string, \<open>toPascalCase\<close> needs the ASCII part of the Unicode data only.\<close>

lemma asciiCp_letterOrDigit:
  "ascii_conformant U \<Longrightarrow> asciiCp c \<Longrightarrow> letterOrDigit U c = letterOrDigit ascii_unicode c"
  by (auto simp: asciiCp_def letterOrDigit_ascii split: list.splits)

lemma asciiCp_isASCII: "asciiCp c \<Longrightarrow> isASCII c"
  by (auto simp: asciiCp_def isASCII_def split: list.splits)

lemma isASCII_Nil: "isASCII []"
  by (simp add: isASCII_def)

lemma isASCII_concat: "list_all asciiCp cs \<Longrightarrow> isASCII (concat cs)"
  by (induction cs) (simp_all add: isASCII_Nil isASCII_append asciiCp_isASCII)

lemma list_all_map_asciiCp: "isASCII s \<Longrightarrow> list_all asciiCp (map (\<lambda>u. [u]) s)"
  by (induction s) (auto simp: isASCII_def asciiCp_def)

lemma list_all_takeWhile: "list_all P xs \<Longrightarrow> list_all P (takeWhile Q xs)"
  by (induction xs) auto

lemma list_all_dropWhile: "list_all P xs \<Longrightarrow> list_all P (dropWhile Q xs)"
  by (induction xs) auto

lemma takeWhile_ascii:
  "ascii_conformant U \<Longrightarrow> list_all asciiCp cs \<Longrightarrow>
     takeWhile (letterOrDigit U) cs = takeWhile (letterOrDigit ascii_unicode) cs"
  by (rule takeWhile_cong) (auto simp: list_all_iff asciiCp_letterOrDigit)

lemma dropWhile_ascii:
  "ascii_conformant U \<Longrightarrow> list_all asciiCp cs \<Longrightarrow>
     dropWhile (letterOrDigit U) cs = dropWhile (letterOrDigit ascii_unicode) cs"
  by (rule dropWhile_cong) (auto simp: list_all_iff asciiCp_letterOrDigit)

lemma filter_ascii:
  "ascii_conformant U \<Longrightarrow> list_all asciiCp cs \<Longrightarrow>
     filter (letterOrDigit U) cs = filter (letterOrDigit ascii_unicode) cs"
  by (rule filter_cong) (auto simp: list_all_iff asciiCp_letterOrDigit)

lemma toUpperCase_ascii: "ascii_conformant U \<Longrightarrow> isASCII s \<Longrightarrow> toUpperCase U s = map ascii_upper s"
  by (simp add: ascii_conformant_def)

lemma toLowerCase_ascii: "ascii_conformant U \<Longrightarrow> isASCII s \<Longrightarrow> toLowerCase U s = map ascii_lower s"
  by (simp add: ascii_conformant_def)

lemma replace_words_ascii:
  "ascii_conformant U \<Longrightarrow> list_all asciiCp cps \<Longrightarrow>
     replace_words U cps = replace_words ascii_unicode cps"
proof (induction U cps rule: replace_words.induct)
  case (1 U)
  show ?case by simp
next
  case (2 U c cs)
  from "2.prems" have c: "asciiCp c" and cs: "list_all asciiCp cs" by simp_all
  have cls: "letterOrDigit U c = letterOrDigit ascii_unicode c"
    using "2.prems"(1) c by (rule asciiCp_letterOrDigit)
  show ?case
  proof (cases "letterOrDigit U c")
    case True
    have tw: "takeWhile (letterOrDigit U) cs = takeWhile (letterOrDigit ascii_unicode) cs"
      using "2.prems"(1) cs by (rule takeWhile_ascii)
    have dw: "dropWhile (letterOrDigit U) cs = dropWhile (letterOrDigit ascii_unicode) cs"
      using "2.prems"(1) cs by (rule dropWhile_ascii)
    have up: "toUpperCase U c = toUpperCase ascii_unicode c"
      using "2.prems"(1) c
      by (simp add: toUpperCase_ascii asciiCp_isASCII ascii_unicode_def)
    have "isASCII (concat (takeWhile (letterOrDigit ascii_unicode) cs))"
      using cs by (intro isASCII_concat list_all_takeWhile)
    then have low: "toLowerCase U (concat (takeWhile (letterOrDigit ascii_unicode) cs))
        = toLowerCase ascii_unicode (concat (takeWhile (letterOrDigit ascii_unicode) cs))"
      using "2.prems"(1) by (simp add: toLowerCase_ascii ascii_unicode_def)
    have "replace_words U (dropWhile (letterOrDigit U) cs)
        = replace_words ascii_unicode (dropWhile (letterOrDigit U) cs)"
      using True "2.prems"(1) cs by (intro "2.IH"(1) list_all_dropWhile)
    with True cls tw dw up low show ?thesis by simp
  next
    case False
    have "replace_words U cs = replace_words ascii_unicode cs"
      using False "2.prems"(1) cs by (intro "2.IH"(2))
    with False cls show ?thesis by simp
  qed
qed

lemma isASCII_replace_words:
  "list_all asciiCp cps \<Longrightarrow> isASCII (replace_words ascii_unicode cps)"
proof (induction "ascii_unicode" cps rule: replace_words.induct)
  case 1
  show ?case by (simp add: isASCII_def)
next
  case (2 c cs)
  from "2.prems" have c: "asciiCp c" and cs: "list_all asciiCp cs" by simp_all
  show ?case
  proof (cases "letterOrDigit ascii_unicode c")
    case True
    have "isASCII (replace_words ascii_unicode (dropWhile (letterOrDigit ascii_unicode) cs))"
      using True cs by (intro "2.hyps"(1) list_all_dropWhile)
    moreover have "isASCII (toUpperCase ascii_unicode c)"
      using c by (simp add: ascii_unicode_def isASCII_map_upper asciiCp_isASCII)
    moreover have "isASCII (toLowerCase ascii_unicode (concat (takeWhile (letterOrDigit ascii_unicode) cs)))"
      using cs by (simp add: ascii_unicode_def isASCII_map_lower isASCII_concat list_all_takeWhile)
    ultimately show ?thesis using True by (simp add: isASCII_append)
  next
    case False
    have "isASCII (replace_words ascii_unicode cs)"
      using False cs by (intro "2.hyps"(2))
    with False c show ?thesis by (simp add: isASCII_append asciiCp_isASCII)
  qed
qed

lemma toPascalCase_ascii:
  assumes U: "ascii_conformant U" and s: "isASCII s"
  shows "toPascalCase U s = toPascalCase ascii_unicode s"
proof -
  let ?cps = "map (\<lambda>u. [u]) s"
  have cps: "codePoints s = ?cps" using s by (rule codePoints_ascii)
  have all: "list_all asciiCp ?cps" using s by (rule list_all_map_asciiCp)
  have test: "test_lettersDigits U s = test_lettersDigits ascii_unicode s"
    using all by (auto simp: test_lettersDigits_def cps list_all_iff asciiCp_letterOrDigit [OF U])
  have "isASCII (charAt0 s)" using s by (cases s) (auto simp: charAt0_def isASCII_def)
  then have up: "toUpperCase U (charAt0 s) = toUpperCase ascii_unicode (charAt0 s)"
    using U by (simp add: toUpperCase_ascii ascii_unicode_def)
  have rw: "replace_words U ?cps = replace_words ascii_unicode ?cps"
    using U all by (rule replace_words_ascii)
  have out: "isASCII (replace_words ascii_unicode ?cps)"
    using all by (rule isASCII_replace_words)
  have "remove_others U (replace_words ascii_unicode ?cps)
      = remove_others ascii_unicode (replace_words ascii_unicode ?cps)"
    unfolding remove_others_def codePoints_ascii [OF out]
    using filter_ascii [OF U list_all_map_asciiCp [OF out]] by simp
  with test up rw show ?thesis by (simp add: toPascalCase_def cps)
qed

section \<open>The loops in closed form\<close>

lemma forEach_enum_eq:
  "forEach_enum U names acc =
     acc @ concat (map (\<lambda>name. tab @ toPascalCase U name @ lit '' = \"'' @ name
                                 @ lit ''\",\<newline>'') names)"
  by (induction names arbitrary: acc) simp_all

lemma forEach_record_eq:
  "forEach_record U names acc =
     acc @ concat (map (\<lambda>name. tab @ name @ lit '': '' @ toPascalCase U name
                                 @ lit ''Record\<newline>'') names)"
  by (induction names arbitrary: acc) simp_all

lemma forEach_field_Inr:
  "forEach_field schema acc = Inr out \<longleftrightarrow>
     (\<exists>lines. map createTypeField schema = map Inr lines \<and> out = acc @ concat lines)"
proof (induction schema arbitrary: acc)
  case Nil
  show ?case by auto
next
  case (Cons f schema)
  show ?case
  proof (cases "createTypeField f")
    case (Inl e)
    then show ?thesis by (auto simp: map_eq_Cons_conv)
  next
    case (Inr line)
    have "(\<exists>lines. Inr line # map createTypeField schema = map Inr lines \<and> out = acc @ concat lines)
        \<longleftrightarrow> (\<exists>ls. map createTypeField schema = map Inr ls \<and> out = (acc @ line) @ concat ls)"
    proof
      assume "\<exists>lines. Inr line # map createTypeField schema = map Inr lines \<and> out = acc @ concat lines"
      then obtain lines where
        l: "Inr line # map createTypeField schema = map Inr lines" "out = acc @ concat lines"
        by (elim exE conjE)
      then obtain ls where "lines = line # ls" "map createTypeField schema = map Inr ls"
        by (auto simp: Cons_eq_map_conv)
      with l show "\<exists>ls. map createTypeField schema = map Inr ls \<and> out = (acc @ line) @ concat ls"
        by auto
    next
      assume "\<exists>ls. map createTypeField schema = map Inr ls \<and> out = (acc @ line) @ concat ls"
      then obtain ls where "map createTypeField schema = map Inr ls" "out = (acc @ line) @ concat ls"
        by (elim exE conjE)
      then have "Inr line # map createTypeField schema = map Inr (line # ls) \<and>
          out = acc @ concat (line # ls)"
        by simp
      then show "\<exists>lines. Inr line # map createTypeField schema = map Inr lines \<and> out = acc @ concat lines"
        by (rule exI)
    qed
    with Inr show ?thesis by (simp add: Cons.IH)
  qed
qed

lemma forEach_row_Inr:
  "forEach_row U results (ns, rts) = Inr (ns', rts') \<longleftrightarrow>
     ns' = ns @ filter (\<lambda>name. name \<noteq> []) (map row_name results) \<and>
     map Inr rts' = map Inr rts
        @ List.map_filter (\<lambda>row. map_option (createRecordType U (row_name row)) (row_schema row))
            results"
proof (induction results arbitrary: ns rts)
  case Nil
  show ?case by (auto simp: List.map_filter_simps inj_map_eq_map)
next
  case (Cons row results)
  show ?case
  proof (cases "row_schema row")
    case None
    then show ?thesis by (simp add: Cons.IH List.map_filter_simps)
  next
    case (Some schema)
    show ?thesis
    proof (cases "createRecordType U (row_name row) schema")
      case (Inl e)
      with Some show ?thesis
        by (auto simp: List.map_filter_simps map_eq_append_conv map_eq_Cons_conv)
    next
      case (Inr recordType)
      with Some show ?thesis by (simp add: Cons.IH List.map_filter_simps)
    qed
  qed
qed

section \<open>Documents of ASCII names\<close>

lemma forEach_row_ascii:
  "ascii_conformant U \<Longrightarrow> list_all (\<lambda>row. isASCII (row_name row)) results \<Longrightarrow>
     forEach_row U results st = forEach_row ascii_unicode results st"
proof (induction results arbitrary: st)
  case Nil
  show ?case by simp
next
  case (Cons row results)
  obtain ns rts where st: "st = (ns, rts)" by (cases st)
  from Cons.prems have "toPascalCase U (row_name row) = toPascalCase ascii_unicode (row_name row)"
    by (simp add: toPascalCase_ascii)
  then have step: "createRecordType U (row_name row) = createRecordType ascii_unicode (row_name row)"
    by (simp add: createRecordType_def fun_eq_iff)
  have ih: "forEach_row U results st' = forEach_row ascii_unicode results st'" for st'
    using Cons.prems by (intro Cons.IH) simp_all
  show ?case by (simp only: st forEach_row.simps step ih)
qed

lemma createCollectionEnum_ascii:
  "ascii_conformant U \<Longrightarrow> list_all isASCII names \<Longrightarrow>
     createCollectionEnum U names = createCollectionEnum ascii_unicode names"
  by (simp add: createCollectionEnum_def forEach_enum_eq list_all_iff toPascalCase_ascii cong: map_cong)

lemma createCollectionRecord_ascii:
  "ascii_conformant U \<Longrightarrow> list_all isASCII names \<Longrightarrow>
     createCollectionRecord U names = createCollectionRecord ascii_unicode names"
  by (simp add: createCollectionRecord_def forEach_record_eq list_all_iff toPascalCase_ascii cong: map_cong)

lemma fileParts_ascii:
  assumes U: "ascii_conformant U" and names: "list_all (\<lambda>row. isASCII (row_name row)) results"
  shows "fileParts U results = fileParts ascii_unicode results"
proof (cases "forEach_row ascii_unicode results ([], [])")
  case (Inl e)
  then show ?thesis by (simp add: fileParts_def forEach_row_ascii [OF U names])
next
  case (Inr st)
  obtain ns rts where st: "st = (ns, rts)" by (cases st)
  from Inr st have "ns = filter (\<lambda>name. name \<noteq> []) (map row_name results)"
    by (simp add: forEach_row_Inr)
  with names have "list_all isASCII (sort ns)" by (auto simp: list_all_iff)
  then show ?thesis
    using Inr st
    by (simp add: fileParts_def forEach_row_ascii [OF U names]
        createCollectionEnum_ascii [OF U] createCollectionRecord_ascii [OF U])
qed

lemma generate_ascii:
  "ascii_conformant U \<Longrightarrow> list_all (\<lambda>row. isASCII (row_name row)) results \<Longrightarrow>
     generate U results = generate ascii_unicode results"
  by (simp add: generate_def fileParts_ascii)

section \<open>The rendering table\<close>

lemma getProperty_select: "getProperty (lit ''select'') = Some (TypeFunc select_type)"
  by (simp add: getProperty_def pbSchemaTypescriptMap_def lit_def)

lemma getProperty_file: "getProperty (lit ''file'') = Some (TypeFunc file_type)"
  by (simp add: getProperty_def pbSchemaTypescriptMap_def lit_def)

lemma renderFieldType_select:
  "field_type f = lit ''select'' \<Longrightarrow> renderFieldType f = select_type (field_options f)"
  by (simp add: renderFieldType_def getProperty_select)

lemma renderFieldType_file:
  "field_type f = lit ''file'' \<Longrightarrow> renderFieldType f = file_type (field_options f)"
  by (simp add: renderFieldType_def getProperty_file)

text \<open>With values, a select field is the union of the quoted values, in their order.\<close>

lemma select_type_values:
  "field_type f = lit ''select'' \<Longrightarrow> field_options f = Some os \<Longrightarrow> opts_values os = Some vals \<Longrightarrow>
     renderFieldType f
       = Inr (join (lit '' | '') (map (\<lambda>val. lit ''\"'' @ val @ lit ''\"'') vals))"
  by (simp add: renderFieldType_select select_type_def)

lemma select_type_no_values:
  "field_type f = lit ''select'' \<Longrightarrow> field_options f = Some os \<Longrightarrow> opts_values os = None \<Longrightarrow>
     renderFieldType f = Inr (lit ''string'')"
  by (simp add: renderFieldType_select select_type_def)

text \<open>
  Claim C1. A select field renders as the union of its quoted values when it has values,
  and as \<^verbatim>\<open>string\<close> in every other case, the empty array of values included. The code
  tests \<^verbatim>\<open>opts.values\<close> for truthiness, and an empty array is truthy: the field renders as
  the empty string, which leaves the member line without a type.
\<close>

theorem select_empty_values:
  "field_type f = lit ''select'' \<Longrightarrow> field_options f = Some os \<Longrightarrow> opts_values os = Some [] \<Longrightarrow>
     renderFieldType f = Inr [] \<and> renderFieldType f \<noteq> Inr (lit ''string'')"
  by (simp add: renderFieldType_select select_type_def lit_def)

theorem select_empty_values_witness:
  "renderFieldType \<lparr>field_name = lit ''status'', field_type = lit ''select'', field_required = True,
      field_options = Some \<lparr>opts_values = Some [], opts_maxSelect = None\<rparr>\<rparr> = Inr []
   \<and> createTypeField \<lparr>field_name = lit ''status'', field_type = lit ''select'', field_required = True,
      field_options = Some \<lparr>opts_values = Some [], opts_maxSelect = None\<rparr>\<rparr>
       = Inr (tab @ lit ''status: \<newline>'')"
  using select_empty_values [of "\<lparr>field_name = lit ''status'', field_type = lit ''select'',
      field_required = True,
      field_options = Some \<lparr>opts_values = Some [], opts_maxSelect = None\<rparr>\<rparr>"
      "\<lparr>opts_values = Some [], opts_maxSelect = None\<rparr>"]
  by (simp add: createTypeField_def sanitizeFieldName_def parseFloat1_def charAt0_def lit_def)

text \<open>
  Claim C10. For a field of type \<^verbatim>\<open>select\<close> or \<^verbatim>\<open>file\<close> whose options are absent,
  \<open>createTypeField\<close> throws a TypeError (it returns no member line, and the error is not
  the one of an unknown type); with the options present it returns a member line.
\<close>

theorem absent_options_TypeError:
  "field_type f = lit ''select'' \<or> field_type f = lit ''file'' \<Longrightarrow>
     (field_options f = None \<longrightarrow>
        createTypeField f = Inl TypeError \<and> createTypeField f \<noteq> Inl (unknownType (field_type f))) \<and>
     (field_options f \<noteq> None \<longrightarrow> (\<exists>line. createTypeField f = Inr line))"
  by (auto simp: createTypeField_def renderFieldType_select renderFieldType_file select_type_def
      file_type_def unknownType_def split: option.splits)

theorem absent_options_TypeError_witness:
  "createTypeField \<lparr>field_name = lit ''cover'', field_type = lit ''file'', field_required = False,
      field_options = None\<rparr> = Inl TypeError
   \<and> createTypeField \<lparr>field_name = lit ''cover'', field_type = lit ''file'', field_required = False,
      field_options = Some \<lparr>opts_values = None, opts_maxSelect = Some 3\<rparr>\<rparr>
       = Inr (tab @ lit ''cover?: string[]\<newline>'')"
  using absent_options_TypeError [of "\<lparr>field_name = lit ''cover'', field_type = lit ''file'',
      field_required = False, field_options = None\<rparr>"]
  by (simp add: createTypeField_def renderFieldType_file file_type_def sanitizeFieldName_def
      parseFloat1_def charAt0_def lit_def)

section \<open>The member line of a field\<close>

lemma createTypeField_status:
  "createTypeField statusField = Inr (tab @ lit ''status: \"open\" | \"closed\"\<newline>'')"
  by (simp add: statusField_def createTypeField_def renderFieldType_select select_type_def
      sanitizeFieldName_def parseFloat1_def charAt0_def lit_def)

text \<open>
  Claim C5, as amended. The member line of a field is a tab, the sanitized name, \<^verbatim>\<open>?\<close> if
  and only if the field is not required, a colon and a space, the rendered type and a
  line feed; a field whose type does not render has no line. The line of the example
  field \<open>statusField\<close> is a tab and \<^verbatim>\<open>status: "open" | "closed"\<close>, followed by a line feed.
\<close>

theorem member_line:
  "(createTypeField f = Inr line \<longleftrightarrow>
      (\<exists>t. renderFieldType f = Inr t \<and>
           line = tab @ sanitizeFieldName (field_name f)
                  @ (if field_required f then [] else lit ''?'') @ lit '': '' @ t @ lit ''\<newline>''))
   \<and> createTypeField statusField = Inr (tab @ lit ''status: \"open\" | \"closed\"\<newline>'')"
  by (auto simp: createTypeField_status) (auto simp: createTypeField_def split: sum.splits)

theorem member_line_witness:
  "createTypeField \<lparr>field_name = lit ''2fa'', field_type = lit ''bool'', field_required = False,
      field_options = None\<rparr>
     = Inr (tab @ lit ''\"2fa\"?: boolean\<newline>'')"
proof -
  let ?f = "\<lparr>field_name = lit ''2fa'', field_type = lit ''bool'', field_required = False,
      field_options = None\<rparr>"
  have "renderFieldType ?f = Inr (lit ''boolean'')"
    by (simp add: renderFieldType_def getProperty_def pbSchemaTypescriptMap_def lit_def)
  then have "createTypeField ?f = Inr (tab @ sanitizeFieldName (field_name ?f)
      @ (if field_required ?f then [] else lit ''?'') @ lit '': '' @ lit ''boolean'' @ lit ''\<newline>'')"
    using member_line [of ?f "tab @ sanitizeFieldName (field_name ?f)
      @ (if field_required ?f then [] else lit ''?'') @ lit '': '' @ lit ''boolean'' @ lit ''\<newline>''"]
    by blast
  then show ?thesis
    by (simp add: sanitizeFieldName_def parseFloat1_def charAt0_def lit_def)
qed

text \<open>
  Claim C5 as stated has the line of the example field be exactly
  \<^verbatim>\<open>status: "open" | "closed"\<close> and a line terminator. The line starts with a tab.
\<close>

theorem member_line_counterexample:
  "createTypeField statusField = Inr (tab @ lit ''status: \"open\" | \"closed\"\<newline>'')
   \<and> createTypeField statusField \<noteq> Inr (lit ''status: \"open\" | \"closed\"\<newline>'')"
  by (simp add: createTypeField_status) (simp add: lit_def tab_def)

section \<open>The parts of the document\<close>



lemma fileParts_Inr:
  "fileParts U results = Inr parts \<longleftrightarrow>
     (\<exists>recordTypes.
        forEach_row U results ([], []) = Inr (collectionNames results, recordTypes) \<and>
        parts = [header, createCollectionEnum U (sort (collectionNames results))]
                @ sort recordTypes
                @ [createCollectionRecord U (sort (collectionNames results))])"
proof (cases "forEach_row U results ([], [])")
  case (Inl e)
  then show ?thesis by (simp add: fileParts_def)
next
  case (Inr st)
  obtain ns rts where st: "st = (ns, rts)" by (cases st)
  from Inr st have "ns = collectionNames results"
    by (simp add: forEach_row_Inr collectionNames_def)
  with Inr st show ?thesis by (auto simp: fileParts_def Let_def)
qed



lemma recordTypes_map:
  "List.map_filter (\<lambda>row. map_option (g row) (row_schema row)) results
     = map (\<lambda>row. g row (the (row_schema row))) (filter (\<lambda>row. row_schema row \<noteq> None) results)"
  by (induction results) (auto simp: List.map_filter_simps)

lemma createRecordType_Nil:
  "createRecordType U name []
     = Inr (lit ''export type '' @ toPascalCase U name @ lit ''Record = {\<newline>}'')"
  by (simp add: createRecordType_def lit_def)

lemma createCollectionEnum_eq:
  "createCollectionEnum U names
     = lit ''export enum Collections {\<newline>''
       @ concat (map (\<lambda>name. tab @ toPascalCase U name @ lit '' = \"'' @ name @ lit ''\",\<newline>'')
                   names)
       @ lit ''}''"
  by (simp add: createCollectionEnum_def forEach_enum_eq)


lemma fileParts_exampleRows:
  "fileParts ascii_unicode exampleRows
     = Inr [header,
            lit ''export enum Collections {\<newline>'' @ tab @ lit ''Posts = \"posts\",\<newline>''
              @ tab @ lit ''Users = \"users\",\<newline>}'',
            lit ''export type PostsRecord = {\<newline>'' @ tab @ lit ''title: string\<newline>''
              @ tab @ lit ''status: \"open\" | \"closed\"\<newline>}'',
            lit ''export type CollectionRecords = {\<newline>'' @ tab @ lit ''posts: PostsRecord\<newline>''
              @ tab @ lit ''users: UsersRecord\<newline>}'']"
  by code_simp

lemma forEach_field_lines:
  "map createTypeField schema = map Inr lines \<Longrightarrow> forEach_field schema p = Inr (p @ concat lines)"
  unfolding forEach_field_Inr by blast

lemma forEach_field_wrap:
  "(case forEach_field schema p of Inl e \<Rightarrow> Inl e | Inr t \<Rightarrow> Inr (t @ q)) = Inr r \<longleftrightarrow>
     (\<exists>lines. map createTypeField schema = map Inr lines \<and> r = p @ concat lines @ q)"
proof (cases "forEach_field schema p")
  case (Inl e)
  have "map createTypeField schema \<noteq> map Inr lines" for lines
    using forEach_field_lines [of schema lines p] Inl by auto
  with Inl show ?thesis by simp
next
  case (Inr out)
  then obtain lines where l: "map createTypeField schema = map Inr lines" "out = p @ concat lines"
    unfolding forEach_field_Inr by (elim exE conjE)
  have same: "lines' = lines" if "map createTypeField schema = map Inr lines'" for lines'
    using that l(1) by (simp add: inj_map_eq_map)
  show ?thesis
  proof
    assume "(case forEach_field schema p of Inl e \<Rightarrow> Inl e | Inr t \<Rightarrow> Inr (t @ q)) = Inr r"
    with Inr l(2) have "r = p @ concat lines @ q" by simp
    with l(1) show "\<exists>lines. map createTypeField schema = map Inr lines \<and> r = p @ concat lines @ q"
      by blast
  next
    assume "\<exists>lines. map createTypeField schema = map Inr lines \<and> r = p @ concat lines @ q"
    then obtain lines' where m: "map createTypeField schema = map Inr lines'"
      and r: "r = p @ concat lines' @ q"
      by (elim exE conjE)
    from m have "lines' = lines" by (rule same)
    with r Inr l(2)
    show "(case forEach_field schema p of Inl e \<Rightarrow> Inl e | Inr t \<Rightarrow> Inr (t @ q)) = Inr r"
      by simp
  qed
qed

lemma createRecordType_Inr:
  "createRecordType U name schema = Inr recordType \<longleftrightarrow>
     (\<exists>lines. map createTypeField schema = map Inr lines \<and>
        recordType = lit ''export type '' @ toPascalCase U name @ lit ''Record = {\<newline>''
                     @ concat lines @ lit ''}'')"
  unfolding createRecordType_def forEach_field_wrap by simp

lemma recordType_form:
  assumes "forEach_row U results ([], []) = Inr (names, recordTypes)"
    and "recordType \<in> set recordTypes"
  shows "\<exists>row \<in> set results. \<exists>lines.
     recordType = lit ''export type '' @ toPascalCase U (row_name row) @ lit ''Record = {\<newline>''
                  @ concat lines @ lit ''}''"
proof -
  let ?g = "\<lambda>row. map_option (createRecordType U (row_name row)) (row_schema row)"
  from assms(1) have "map Inr recordTypes = List.map_filter ?g results"
    by (simp add: forEach_row_Inr)
  with assms(2) have "Inr recordType \<in> set (List.map_filter ?g results)"
    by (metis image_eqI set_map)
  then obtain row where row: "row \<in> set results" and "?g row = Some (Inr recordType)"
    by (auto simp: List.map_filter_def)
  then obtain schema where "createRecordType U (row_name row) schema = Inr recordType"
    by auto
  then obtain lines where
    "recordType = lit ''export type '' @ toPascalCase U (row_name row) @ lit ''Record = {\<newline>''
                  @ concat lines @ lit ''}''"
    unfolding createRecordType_Inr by (elim exE conjE)
  with row show ?thesis by blast
qed

subsection \<open>Which collections have a record type\<close>

text \<open>
  Claim C3, as amended. \<open>generate\<close> renders a record type exactly for the collections whose
  field list is present, in the order of the rows, and the document holds these blocks
  sorted: a collection without a field list contributes none, and a collection with an
  empty field list contributes a declaration with an empty body.
\<close>

theorem recordTypes_present_schemas:
  "(fileParts U results = Inr parts \<longrightarrow>
      (\<exists>recordTypes.
         map Inr recordTypes
           = map (\<lambda>row. createRecordType U (row_name row) (the (row_schema row)))
               (filter (\<lambda>row. row_schema row \<noteq> None) results) \<and>
         parts = [header, createCollectionEnum U (sort (collectionNames results))]
                 @ sort recordTypes
                 @ [createCollectionRecord U (sort (collectionNames results))]))
   \<and> createRecordType U name []
       = Inr (lit ''export type '' @ toPascalCase U name @ lit ''Record = {\<newline>}'')"
  by (auto simp: fileParts_Inr forEach_row_Inr recordTypes_map createRecordType_Nil)

theorem recordTypes_present_schemas_witness:
  "\<exists>recordTypes.
     map Inr recordTypes
       = map (\<lambda>row. createRecordType ascii_unicode (row_name row) (the (row_schema row)))
           (filter (\<lambda>row. row_schema row \<noteq> None) exampleRows) \<and>
     [header,
      lit ''export enum Collections {\<newline>'' @ tab @ lit ''Posts = \"posts\",\<newline>''
        @ tab @ lit ''Users = \"users\",\<newline>}'',
      lit ''export type PostsRecord = {\<newline>'' @ tab @ lit ''title: string\<newline>''
        @ tab @ lit ''status: \"open\" | \"closed\"\<newline>}'',
      lit ''export type CollectionRecords = {\<newline>'' @ tab @ lit ''posts: PostsRecord\<newline>''
        @ tab @ lit ''users: UsersRecord\<newline>}'']
       = [header, createCollectionEnum ascii_unicode (sort (collectionNames exampleRows))]
         @ sort recordTypes
         @ [createCollectionRecord ascii_unicode (sort (collectionNames exampleRows))]"
  using fileParts_exampleRows recordTypes_present_schemas [of ascii_unicode exampleRows]
  by blast

text \<open>
  Claim C3 as stated has a collection with an empty field list contribute no record
  type. An empty array is truthy, so the collection \<^verbatim>\<open>{name:"posts", schema:[]}\<close> has its
  declaration in the document.
\<close>

theorem empty_schema_counterexample:
  "fileParts ascii_unicode [\<lparr>row_name = lit ''posts'', row_schema = Some []\<rparr>]
     = Inr [header,
            lit ''export enum Collections {\<newline>'' @ tab @ lit ''Posts = \"posts\",\<newline>}'',
            lit ''export type PostsRecord = {\<newline>}'',
            lit ''export type CollectionRecords = {\<newline>'' @ tab @ lit ''posts: PostsRecord\<newline>}'']"
  by code_simp

subsection \<open>The enumeration\<close>

lemma codePointValues_FF71: "codePointValues [0xFF71] = [0xFF71]"
  by (simp add: codePointValues_def codePointValue_def)

lemma codePointValues_10400: "codePointValues [0xD801, 0xDC00] = [0x10400]"
  by (simp add: codePointValues_def codePointValue_def isLeadSurrogate_def isTrailSurrogate_def)

lemma fileParts_FF71_10400:
  "fileParts sample_unicode
       [\<lparr>row_name = [0xFF71], row_schema = None\<rparr>, \<lparr>row_name = [0xD801, 0xDC00], row_schema = None\<rparr>]
     = Inr [header,
            lit ''export enum Collections {\<newline>''
              @ tab @ [0xD801, 0xDC00] @ lit '' = \"'' @ [0xD801, 0xDC00] @ lit ''\",\<newline>''
              @ tab @ [0xFF71] @ lit '' = \"'' @ [0xFF71] @ lit ''\",\<newline>}'',
            lit ''export type CollectionRecords = {\<newline>''
              @ tab @ [0xD801, 0xDC00] @ lit '': '' @ [0xD801, 0xDC00] @ lit ''Record\<newline>''
              @ tab @ [0xFF71] @ lit '': '' @ [0xFF71] @ lit ''Record\<newline>}'']"
  by code_simp

lemma fileParts_zeta_alpha:
  "fileParts ascii_unicode [\<lparr>row_name = lit ''zeta'', row_schema = None\<rparr>,
                           \<lparr>row_name = [], row_schema = None\<rparr>,
                           \<lparr>row_name = lit ''alpha'', row_schema = None\<rparr>]
     = Inr [header,
            lit ''export enum Collections {\<newline>'' @ tab @ lit ''Alpha = \"alpha\",\<newline>''
              @ tab @ lit ''Zeta = \"zeta\",\<newline>}'',
            lit ''export type CollectionRecords = {\<newline>'' @ tab @ lit ''alpha: AlphaRecord\<newline>''
              @ tab @ lit ''zeta: ZetaRecord\<newline>}'']"
  by code_simp

lemma codePoints_noSurrogates: "noSurrogates s \<Longrightarrow> codePoints s = map (\<lambda>u. [u]) s"
  by (induction s rule: codePoints.induct) (auto simp: noSurrogates_def)

lemma codePointValues_noSurrogates: "noSurrogates s \<Longrightarrow> codePointValues s = map unat s"
  by (simp add: codePointValues_def codePoints_noSurrogates codePointValue_def comp_def)

lemma map_unat_less: "map unat a < map unat b \<longleftrightarrow> a < b" for a b :: jsstring
proof (induction a arbitrary: b)
  case Nil
  show ?case by (cases b) simp_all
next
  case (Cons u a)
  show ?case by (cases b) (simp_all add: Cons.IH word_less_nat_alt word_unat_eq_iff)
qed

lemma map_unat_le: "a \<le> b \<Longrightarrow> map unat a \<le> map unat b" for a b :: jsstring
  by (auto simp: le_less map_unat_less)

lemma codePointValues_mono:
  "noSurrogates a \<Longrightarrow> noSurrogates b \<Longrightarrow> a \<le> b \<Longrightarrow> codePointValues a \<le> codePointValues b"
  by (simp add: codePointValues_noSurrogates map_unat_le)

lemma sorted_codePointValues:
  assumes "list_all noSurrogates names"
  shows "sorted (map codePointValues (sort names))"
proof -
  have "sorted_wrt (\<lambda>a b. a \<le> b) (sort names)" by simp
  then have "sorted_wrt (\<lambda>a b. codePointValues a \<le> codePointValues b) (sort names)"
  proof (rule sorted_wrt_mono_rel [rotated])
    fix a b
    assume "a \<in> set (sort names)" "b \<in> set (sort names)" "a \<le> b"
    with assms show "codePointValues a \<le> codePointValues b"
      by (intro codePointValues_mono) (auto simp: list_all_iff)
  qed
  then show ?thesis by (simp add: sorted_map)
qed

lemma noSurrogates_zeta_alpha:
  "list_all noSurrogates
     (collectionNames [\<lparr>row_name = lit ''zeta'', row_schema = None\<rparr>,
                       \<lparr>row_name = [], row_schema = None\<rparr>,
                       \<lparr>row_name = lit ''alpha'', row_schema = None\<rparr>])"
  by code_simp

text \<open>
  Claim C6, as amended. The enumeration, the second part of the document, lists exactly
  the collections whose name is not empty, each as the member
  \<^verbatim>\<open>toPascalCase(name) = "name",\<close> in the lexicographic order of the names as sequences of
  UTF-16 code units; when no name has a surrogate, this is the order of their code points.
  For the collections \<^verbatim>\<open>zeta\<close> and \<^verbatim>\<open>alpha\<close>, the member \<^verbatim>\<open>Alpha\<close> stands before \<^verbatim>\<open>Zeta\<close>.
\<close>

theorem enum_sorted_names:
  "(fileParts U results = Inr parts \<longrightarrow>
      parts ! 1 = createCollectionEnum U (sort (collectionNames results)))
   \<and> createCollectionEnum U (sort (collectionNames results))
       = lit ''export enum Collections {\<newline>''
         @ concat (map (\<lambda>name. tab @ toPascalCase U name @ lit '' = \"'' @ name @ lit ''\",\<newline>'')
                     (sort (collectionNames results)))
         @ lit ''}''
   \<and> sorted (sort (collectionNames results))
   \<and> mset (sort (collectionNames results)) = mset (filter (\<lambda>name. name \<noteq> []) (map row_name results))
   \<and> (list_all noSurrogates (collectionNames results) \<longrightarrow>
        sorted (map codePointValues (sort (collectionNames results))))
   \<and> (ascii_conformant U \<longrightarrow>
        createCollectionEnum U
            (sort (collectionNames [\<lparr>row_name = lit ''zeta'', row_schema = s1\<rparr>,
                                    \<lparr>row_name = lit ''alpha'', row_schema = s2\<rparr>]))
          = lit ''export enum Collections {\<newline>'' @ tab @ lit ''Alpha = \"alpha\",\<newline>''
            @ tab @ lit ''Zeta = \"zeta\",\<newline>}'')"
proof -
  have names: "sort (collectionNames [\<lparr>row_name = lit ''zeta'', row_schema = s1\<rparr>,
      \<lparr>row_name = lit ''alpha'', row_schema = s2\<rparr>]) = [lit ''alpha'', lit ''zeta'']"
    by (simp add: collectionNames_def lit_def)
  have ascii: "list_all isASCII [lit ''alpha'', lit ''zeta'']"
    by (simp add: isASCII_def lit_def)
  have "createCollectionEnum ascii_unicode [lit ''alpha'', lit ''zeta'']
      = lit ''export enum Collections {\<newline>'' @ tab @ lit ''Alpha = \"alpha\",\<newline>''
            @ tab @ lit ''Zeta = \"zeta\",\<newline>}''"
    by code_simp
  then have ex: "ascii_conformant U \<longrightarrow> createCollectionEnum U [lit ''alpha'', lit ''zeta'']
      = lit ''export enum Collections {\<newline>'' @ tab @ lit ''Alpha = \"alpha\",\<newline>''
            @ tab @ lit ''Zeta = \"zeta\",\<newline>}''"
    using createCollectionEnum_ascii [OF _ ascii] by simp
  have part: "fileParts U results = Inr parts \<longrightarrow>
      parts ! 1 = createCollectionEnum U (sort (collectionNames results))"
    by (auto simp: fileParts_Inr)
  show ?thesis
    unfolding names using ex part sorted_codePointValues [of "collectionNames results"]
    by (simp add: createCollectionEnum_eq collectionNames_def)
qed

theorem enum_sorted_names_witness:
  "fileParts ascii_unicode [\<lparr>row_name = lit ''zeta'', row_schema = None\<rparr>,
                           \<lparr>row_name = [], row_schema = None\<rparr>,
                           \<lparr>row_name = lit ''alpha'', row_schema = None\<rparr>]
     = Inr [header,
            lit ''export enum Collections {\<newline>'' @ tab @ lit ''Alpha = \"alpha\",\<newline>''
              @ tab @ lit ''Zeta = \"zeta\",\<newline>}'',
            lit ''export type CollectionRecords = {\<newline>'' @ tab @ lit ''alpha: AlphaRecord\<newline>''
              @ tab @ lit ''zeta: ZetaRecord\<newline>}'']
   \<and> [header,
        lit ''export enum Collections {\<newline>'' @ tab @ lit ''Alpha = \"alpha\",\<newline>''
              @ tab @ lit ''Zeta = \"zeta\",\<newline>}'',
        lit ''export type CollectionRecords = {\<newline>'' @ tab @ lit ''alpha: AlphaRecord\<newline>''
              @ tab @ lit ''zeta: ZetaRecord\<newline>}''] ! 1
       = createCollectionEnum ascii_unicode
           (sort (collectionNames [\<lparr>row_name = lit ''zeta'', row_schema = None\<rparr>,
                                   \<lparr>row_name = [], row_schema = None\<rparr>,
                                   \<lparr>row_name = lit ''alpha'', row_schema = None\<rparr>]))
   \<and> list_all noSurrogates
         (collectionNames [\<lparr>row_name = lit ''zeta'', row_schema = None\<rparr>,
                           \<lparr>row_name = [], row_schema = None\<rparr>,
                           \<lparr>row_name = lit ''alpha'', row_schema = None\<rparr>])
   \<and> sorted (map codePointValues
         (sort (collectionNames [\<lparr>row_name = lit ''zeta'', row_schema = None\<rparr>,
                                 \<lparr>row_name = [], row_schema = None\<rparr>,
                                 \<lparr>row_name = lit ''alpha'', row_schema = None\<rparr>])))
   \<and> ascii_conformant ascii_unicode
   \<and> createCollectionEnum ascii_unicode
            (sort (collectionNames [\<lparr>row_name = lit ''zeta'', row_schema = None\<rparr>,
                                    \<lparr>row_name = lit ''alpha'', row_schema = None\<rparr>]))
          = lit ''export enum Collections {\<newline>'' @ tab @ lit ''Alpha = \"alpha\",\<newline>''
            @ tab @ lit ''Zeta = \"zeta\",\<newline>}''"
  using fileParts_zeta_alpha ascii_conformant_ascii_unicode noSurrogates_zeta_alpha
    enum_sorted_names [of ascii_unicode "[\<lparr>row_name = lit ''zeta'', row_schema = None\<rparr>,
                           \<lparr>row_name = [], row_schema = None\<rparr>,
                           \<lparr>row_name = lit ''alpha'', row_schema = None\<rparr>]"
        "[header,
            lit ''export enum Collections {\<newline>'' @ tab @ lit ''Alpha = \"alpha\",\<newline>''
              @ tab @ lit ''Zeta = \"zeta\",\<newline>}'',
            lit ''export type CollectionRecords = {\<newline>'' @ tab @ lit ''alpha: AlphaRecord\<newline>''
              @ tab @ lit ''zeta: ZetaRecord\<newline>}'']" None None]
  by blast

text \<open>
  Claim C6 as stated has the names in the order of their code points. \<^verbatim>\<open>sort()\<close> compares
  UTF-16 code units: the name U+10400, the code units D801 DC00, is listed before the name
  U+FF71, whose code point is the smaller one.
\<close>

theorem enum_order_counterexample:
  "fileParts sample_unicode
       [\<lparr>row_name = [0xFF71], row_schema = None\<rparr>, \<lparr>row_name = [0xD801, 0xDC00], row_schema = None\<rparr>]
     = Inr [header,
            lit ''export enum Collections {\<newline>''
              @ tab @ [0xD801, 0xDC00] @ lit '' = \"'' @ [0xD801, 0xDC00] @ lit ''\",\<newline>''
              @ tab @ [0xFF71] @ lit '' = \"'' @ [0xFF71] @ lit ''\",\<newline>}'',
            lit ''export type CollectionRecords = {\<newline>''
              @ tab @ [0xD801, 0xDC00] @ lit '': '' @ [0xD801, 0xDC00] @ lit ''Record\<newline>''
              @ tab @ [0xFF71] @ lit '': '' @ [0xFF71] @ lit ''Record\<newline>}'']
   \<and> codePointValues [0xFF71] = [0xFF71]
   \<and> codePointValues [0xD801, 0xDC00] = [0x10400]
   \<and> codePointValues [0xFF71] < codePointValues [0xD801, 0xDC00]"
  using fileParts_FF71_10400 by (simp add: codePointValues_FF71 codePointValues_10400)

subsection \<open>The lines of the document\<close>











































subsection \<open>The whole document\<close>




subsection \<open>Two calls\<close>





section \<open>Unknown field types\<close>

lemma forEach_field_Inl:
  "forEach_field schema acc = Inl e \<Longrightarrow> \<exists>f \<in> set schema. createTypeField f = Inl e"
  by (induction schema arbitrary: acc) (auto split: sum.splits)

lemma forEach_field_fails:
  "f \<in> set schema \<Longrightarrow> createTypeField f = Inl e \<Longrightarrow> \<exists>e'. forEach_field schema acc = Inl e'"
  by (induction schema arbitrary: acc) (auto split: sum.splits)

lemma createRecordType_Inl:
  "createRecordType U name schema = Inl e \<Longrightarrow> \<exists>f \<in> set schema. createTypeField f = Inl e"
  by (auto simp: createRecordType_def split: sum.splits dest: forEach_field_Inl)

lemma createRecordType_fails:
  assumes "f \<in> set schema" and "createTypeField f = Inl e"
  shows "\<exists>e'. createRecordType U name schema = Inl e'"
proof -
  obtain e' where
    "forEach_field schema (lit ''export type '' @ toPascalCase U name @ lit ''Record = {\<newline>'') = Inl e'"
    using forEach_field_fails [OF assms] by blast
  then show ?thesis by (simp add: createRecordType_def)
qed

lemma forEach_row_Inl:
  "forEach_row U results st = Inl e \<Longrightarrow>
     \<exists>row \<in> set results. \<exists>schema. row_schema row = Some schema \<and>
        createRecordType U (row_name row) schema = Inl e"
proof (induction results arbitrary: st)
  case Nil
  then show ?case by simp
next
  case (Cons row results)
  obtain ns rts where st: "st = (ns, rts)" by (cases st)
  from Cons.prems Cons.IH show ?case
    unfolding st by (auto simp: Let_def split: option.splits sum.splits)
qed

lemma forEach_row_fails:
  "row \<in> set results \<Longrightarrow> row_schema row = Some schema \<Longrightarrow>
   createRecordType U (row_name row) schema = Inl e \<Longrightarrow> \<exists>e'. forEach_row U results st = Inl e'"
proof (induction results arbitrary: st)
  case Nil
  then show ?case by simp
next
  case (Cons r results)
  obtain ns rts where st: "st = (ns, rts)" by (cases st)
  from Cons.prems Cons.IH show ?case
    unfolding st by (auto simp: Let_def split: option.splits sum.splits)
qed

lemma generate_Inl:
  "generate U results = Inl e \<longleftrightarrow> forEach_row U results ([], []) = Inl e"
  by (auto simp: generate_def fileParts_def Let_def split: sum.splits)

text \<open>A field whose type is no property of the table, own or inherited, ends \<open>generate\<close>
  with an error: no document is returned.\<close>

lemma unknown_type_fails:
  assumes "row \<in> set results" and "row_schema row = Some schema" and "f \<in> set schema"
    and "getProperty (field_type f) = None"
  shows "\<exists>e. generate U results = Inl e"
proof -
  have "createTypeField f = Inl (unknownType (field_type f))"
    using assms(4) by (simp add: createTypeField_def renderFieldType_def)
  with assms(3) obtain e where "createRecordType U (row_name row) schema = Inl e"
    using createRecordType_fails by blast
  with assms(1,2) obtain e' where "forEach_row U results ([], []) = Inl e'"
    using forEach_row_fails by blast
  then show ?thesis by (auto simp: generate_Inl)
qed

lemma renderFieldType_unknownType:
  "renderFieldType f = Inl (unknownType t) \<Longrightarrow>
     pbSchemaTypescriptMap (field_type f) = None \<and> t = field_type f"
  by (auto simp: renderFieldType_def getProperty_def pbSchemaTypescriptMap_def Object_prototype_def
      select_type_def file_type_def unknownType_def
      split: option.splits if_splits typeStringOrFunc.splits)

text \<open>The error of an unknown type comes from a field whose type is not one of the
  eleven of the table.\<close>

lemma unknownType_from_field:
  assumes "generate U results = Inl (unknownType t)"
  shows "\<exists>row \<in> set results. \<exists>schema. row_schema row = Some schema \<and>
     (\<exists>f \<in> set schema. field_type f = t \<and> pbSchemaTypescriptMap t = None)"
proof -
  from assms have "forEach_row U results ([], []) = Inl (unknownType t)"
    by (simp add: generate_Inl)
  then obtain row schema where row: "row \<in> set results" "row_schema row = Some schema"
    and "createRecordType U (row_name row) schema = Inl (unknownType t)"
    using forEach_row_Inl by blast
  then obtain f where f: "f \<in> set schema" and "createTypeField f = Inl (unknownType t)"
    using createRecordType_Inl by blast
  then have "renderFieldType f = Inl (unknownType t)"
    by (auto simp: createTypeField_def split: sum.splits)
  then have "pbSchemaTypescriptMap (field_type f) = None \<and> t = field_type f"
    by (rule renderFieldType_unknownType)
  with row f show ?thesis by blast
qed

lemma forEach_field_total:
  "(\<exists>out. forEach_field schema acc = Inr out) \<longleftrightarrow>
     (\<forall>f \<in> set schema. \<exists>line. createTypeField f = Inr line)"
proof
  assume "\<exists>out. forEach_field schema acc = Inr out"
  then obtain lines where "map createTypeField schema = map Inr lines"
    unfolding forEach_field_Inr by blast
  then show "\<forall>f \<in> set schema. \<exists>line. createTypeField f = Inr line"
    by (metis (no_types, lifting) imageE image_eqI list.set_map)
next
  assume "\<forall>f \<in> set schema. \<exists>line. createTypeField f = Inr line"
  then show "\<exists>out. forEach_field schema acc = Inr out"
    by (induction schema arbitrary: acc) (auto split: sum.splits)
qed

text \<open>\<open>generate\<close> returns a document exactly when every field of every collection that has
  a field list gives a member line.\<close>

lemma generate_returns_iff:
  "(\<exists>doc. generate U results = Inr doc) \<longleftrightarrow>
     (\<forall>row \<in> set results. \<forall>schema. row_schema row = Some schema \<longrightarrow>
        (\<forall>f \<in> set schema. \<exists>line. createTypeField f = Inr line))"
proof
  assume "\<exists>doc. generate U results = Inr doc"
  show "\<forall>row \<in> set results. \<forall>schema. row_schema row = Some schema \<longrightarrow>
        (\<forall>f \<in> set schema. \<exists>line. createTypeField f = Inr line)"
  proof (intro ballI allI impI)
    fix row schema f
    assume row: "row \<in> set results" "row_schema row = Some schema" and f: "f \<in> set schema"
    show "\<exists>line. createTypeField f = Inr line"
    proof (cases "createTypeField f")
      case (Inl e)
      with f obtain e' where "createRecordType U (row_name row) schema = Inl e'"
        using createRecordType_fails by blast
      with row obtain e'' where "forEach_row U results ([], []) = Inl e''"
        using forEach_row_fails by blast
      then have "generate U results = Inl e''" by (simp add: generate_Inl)
      with \<open>\<exists>doc. generate U results = Inr doc\<close> show ?thesis by simp
    next
      case (Inr line)
      then show ?thesis by blast
    qed
  qed
next
  assume all: "\<forall>row \<in> set results. \<forall>schema. row_schema row = Some schema \<longrightarrow>
        (\<forall>f \<in> set schema. \<exists>line. createTypeField f = Inr line)"
  show "\<exists>doc. generate U results = Inr doc"
  proof (cases "generate U results")
    case (Inl e)
    then have "forEach_row U results ([], []) = Inl e" by (simp add: generate_Inl)
    then obtain row schema where "row \<in> set results" "row_schema row = Some schema"
      and "createRecordType U (row_name row) schema = Inl e"
      using forEach_row_Inl by blast
    moreover from this obtain f where "f \<in> set schema" "createTypeField f = Inl e"
      using createRecordType_Inl by blast
    ultimately show ?thesis using all by fastforce
  next
    case (Inr doc)
    then show ?thesis by blast
  qed
qed

lemma generate_toString_ascii:
  "generate ascii_unicode
       [\<lparr>row_name = lit ''posts'',
         row_schema = Some [\<lparr>field_name = lit ''title'', field_type = lit ''toString'',
                              field_required = True, field_options = None\<rparr>]\<rparr>]
     = Inr (join (lit ''\<newline>\<newline>'')
         [header,
          lit ''export enum Collections {\<newline>'' @ tab @ lit ''Posts = \"posts\",\<newline>}'',
          lit ''export type PostsRecord = {\<newline>'' @ tab @ lit ''title: [object Undefined]\<newline>}'',
          lit ''export type CollectionRecords = {\<newline>'' @ tab @ lit ''posts: PostsRecord\<newline>}''])"
  by code_simp

lemma not_own_toString: "pbSchemaTypescriptMap (lit ''toString'') = None"
  by (simp add: pbSchemaTypescriptMap_def lit_def)

text \<open>
  Claim C4. Every schema with a field whose type is outside the eleven types of the table
  makes \<open>generate\<close> fail with the error of an unknown type. The check of the code is
  \<^verbatim>\<open>recordSchema.type in pbSchemaTypescriptMap\<close>, which holds for the names that an object
  inherits as well: for a field of type \<^verbatim>\<open>toString\<close>, which is not a key of the table,
  \<open>generate\<close> returns a document, with the member \<^verbatim>\<open>title: [object Undefined]\<close>.
\<close>

theorem inherited_type_renders:
  "ascii_conformant U \<Longrightarrow>
     pbSchemaTypescriptMap (lit ''toString'') = None \<and>
     generate U
       [\<lparr>row_name = lit ''posts'',
         row_schema = Some [\<lparr>field_name = lit ''title'', field_type = lit ''toString'',
                              field_required = True, field_options = None\<rparr>]\<rparr>]
     = Inr (join (lit ''\<newline>\<newline>'')
         [header,
          lit ''export enum Collections {\<newline>'' @ tab @ lit ''Posts = \"posts\",\<newline>}'',
          lit ''export type PostsRecord = {\<newline>'' @ tab @ lit ''title: [object Undefined]\<newline>}'',
          lit ''export type CollectionRecords = {\<newline>'' @ tab @ lit ''posts: PostsRecord\<newline>}''])"
proof -
  assume U: "ascii_conformant U"
  have "list_all (\<lambda>row. isASCII (row_name row))
      [\<lparr>row_name = lit ''posts'',
         row_schema = Some [\<lparr>field_name = lit ''title'', field_type = lit ''toString'',
                              field_required = True, field_options = None\<rparr>]\<rparr>]"
    by (simp add: isASCII_def lit_def)
  from generate_ascii [OF U this] show ?thesis
    by (simp only: generate_toString_ascii not_own_toString simp_thms)
qed

theorem inherited_type_renders_witness:
  "ascii_conformant ascii_unicode \<and>
     generate ascii_unicode
       [\<lparr>row_name = lit ''posts'',
         row_schema = Some [\<lparr>field_name = lit ''title'', field_type = lit ''toString'',
                              field_required = True, field_options = None\<rparr>]\<rparr>]
     = Inr (join (lit ''\<newline>\<newline>'')
         [header,
          lit ''export enum Collections {\<newline>'' @ tab @ lit ''Posts = \"posts\",\<newline>}'',
          lit ''export type PostsRecord = {\<newline>'' @ tab @ lit ''title: [object Undefined]\<newline>}'',
          lit ''export type CollectionRecords = {\<newline>'' @ tab @ lit ''posts: PostsRecord\<newline>}''])"
  using inherited_type_renders [OF ascii_conformant_ascii_unicode] ascii_conformant_ascii_unicode
  by blast

section \<open>Identifiers\<close>

text \<open>A string of letters and digits only: the first code unit goes through
  \<open>toUpperCase\<close>, the rest is kept.\<close>

lemma toPascalCase_lettersDigits:
  "test_lettersDigits U str \<Longrightarrow> toPascalCase U str = toUpperCase U (take 1 str) @ drop 1 str"
  by (simp add: toPascalCase_def charAt0_def slice1_def)

lemma codePoints_first:
  "str \<noteq> [] \<Longrightarrow> \<not> isLeadSurrogate (hd str) \<Longrightarrow>
     hd (codePoints str) = take 1 str \<and> concat (tl (codePoints str)) = drop 1 str"
  by (cases str rule: codePoints.cases) (auto simp: concat_codePoints)

text \<open>When the first character is one code unit, it is the first code point that is
  upper-cased, and the other code points are kept.\<close>

lemma toPascalCase_first_code_point:
  assumes "test_lettersDigits U str" and "\<not> isLeadSurrogate (hd str)"
  shows "toPascalCase U str = toUpperCase U (hd (codePoints str)) @ concat (tl (codePoints str))"
proof -
  from assms(1) have "str \<noteq> []"
    by (auto simp: test_lettersDigits_def)
  with assms(2) show ?thesis
    using assms(1) by (simp add: codePoints_first toPascalCase_lettersDigits)
qed

lemma replace_words_none:
  "list_all (\<lambda>c. \<not> letterOrDigit U c) cps \<Longrightarrow> replace_words U cps = concat cps"
  by (induction cps) simp_all

text \<open>A string without a letter or a digit, the empty string too, gives the empty
  string.\<close>

lemma toPascalCase_none:
  assumes "list_all (\<lambda>c. \<not> letterOrDigit U c) (codePoints str)"
  shows "toPascalCase U str = []"
proof -
  have "\<not> test_lettersDigits U str"
    using assms by (cases "codePoints str") (auto simp: test_lettersDigits_def)
  moreover have "replace_words U (codePoints str) = str"
    using assms by (simp add: replace_words_none concat_codePoints)
  moreover have "filter (letterOrDigit U) (codePoints str) = []"
    using assms by (simp add: list_all_iff)
  ultimately show ?thesis by (simp add: toPascalCase_def remove_others_def)
qed

text \<open>
  Claim C9. On a string of Unicode letters and digits, \<open>toPascalCase\<close> upper-cases the
  first character and keeps the rest. The code upper-cases \<^verbatim>\<open>str.charAt(0)\<close>, the first
  UTF-16 code unit: when the first letter is outside the Basic Multilingual Plane, this
  is a lone surrogate, which has no upper case, and the string is returned as it is. With
  any Unicode data that has the letter U+10428 and its upper case U+10400, the string of
  this one letter is returned unchanged.
\<close>

theorem first_code_unit_only:
  "letter U [0xD801, 0xDC28] \<Longrightarrow> toUpperCase U [0xD801] = [0xD801] \<Longrightarrow>
   toUpperCase U [0xD801, 0xDC28] = [0xD801, 0xDC00] \<Longrightarrow>
     toPascalCase U [0xD801, 0xDC28] = [0xD801, 0xDC28] \<and>
     toPascalCase U [0xD801, 0xDC28] \<noteq> toUpperCase U [0xD801, 0xDC28]"
  by (simp add: toPascalCase_def test_lettersDigits_def isLeadSurrogate_def isTrailSurrogate_def
      letterOrDigit_def charAt0_def slice1_def)

text \<open>With a separator after the letter, the other branch of \<open>toPascalCase\<close> upper-cases
  it.\<close>

theorem first_code_unit_only_witness:
  "letter sample_unicode [0xD801, 0xDC28] \<and> toUpperCase sample_unicode [0xD801] = [0xD801] \<and>
   toUpperCase sample_unicode [0xD801, 0xDC28] = [0xD801, 0xDC00] \<and>
   toPascalCase sample_unicode [0xD801, 0xDC28] = [0xD801, 0xDC28] \<and>
   toPascalCase sample_unicode ([0xD801, 0xDC28] @ lit ''_'') = [0xD801, 0xDC00]"
proof -
  have 1: "letter sample_unicode [0xD801, 0xDC28]"
    by (simp add: sample_unicode_def)
  have 2: "toUpperCase sample_unicode [0xD801] = [0xD801]"
    by (simp add: sample_unicode_def ascii_upper_def)
  have 3: "toUpperCase sample_unicode [0xD801, 0xDC28] = [0xD801, 0xDC00]"
    by (simp add: sample_unicode_def isLeadSurrogate_def isTrailSurrogate_def)
  have 4: "toPascalCase sample_unicode ([0xD801, 0xDC28] @ lit ''_'') = [0xD801, 0xDC00]"
    by code_simp
  from first_code_unit_only [OF 1 2 3] 1 2 3 4 show ?thesis by blast
qed

section \<open>The words of an identifier\<close>

lemma codePoints_append:
  "a = [] \<or> b = [] \<or> \<not> isLeadSurrogate (last a) \<or> \<not> isTrailSurrogate (hd b) \<Longrightarrow>
     codePoints (a @ b) = codePoints a @ codePoints b"
proof (induction a rule: codePoints.induct)
  case 1
  show ?case by simp
next
  case (2 u)
  then show ?case by (cases b) auto
next
  case (3 u v s)
  show ?case
  proof (cases "isLeadSurrogate u \<and> isTrailSurrogate v")
    case True
    have "codePoints (s @ b) = codePoints s @ codePoints b"
      using True "3.prems" by (intro "3.IH"(1)) (auto split: if_splits)
    with True show ?thesis by simp
  next
    case False
    have "codePoints ((v # s) @ b) = codePoints (v # s) @ codePoints b"
      using False "3.prems" by (intro "3.IH"(2)) (auto split: if_splits)
    with False show ?thesis by auto
  qed
qed

lemma codePoints_not_Nil: "c \<in> set (codePoints s) \<Longrightarrow> c \<noteq> []"
  by (induction s rule: codePoints.induct) (auto split: if_splits)

lemma hd_hd_codePoints: "s \<noteq> [] \<Longrightarrow> hd (hd (codePoints s)) = hd s"
  by (cases s rule: codePoints.cases) auto

lemma codePoints_Cons:
  assumes "codePoints s = c # cs"
  shows "codePoints (concat cs) = cs"
    and "(\<exists>u. c = [u] \<and> (cs \<noteq> [] \<longrightarrow> \<not> (isLeadSurrogate u \<and> isTrailSurrogate (hd (hd cs)))))
         \<or> (\<exists>u v. c = [u, v] \<and> isLeadSurrogate u \<and> isTrailSurrogate v)"
proof -
  show "codePoints (concat cs) = cs"
    using assms by (cases s rule: codePoints.cases) (auto simp: concat_codePoints split: if_splits)
  show "(\<exists>u. c = [u] \<and> (cs \<noteq> [] \<longrightarrow> \<not> (isLeadSurrogate u \<and> isTrailSurrogate (hd (hd cs)))))
         \<or> (\<exists>u v. c = [u, v] \<and> isLeadSurrogate u \<and> isTrailSurrogate v)"
  proof (cases s rule: codePoints.cases)
    case 1
    with assms show ?thesis by simp
  next
    case (2 u)
    with assms show ?thesis by auto
  next
    case (3 u v t)
    show ?thesis
    proof (cases "isLeadSurrogate u \<and> isTrailSurrogate v")
      case True
      with assms 3 show ?thesis by auto
    next
      case False
      with assms 3 have c: "c = [u]" and cs: "cs = codePoints (v # t)" by auto
      have "hd (hd cs) = v" unfolding cs by (simp add: hd_hd_codePoints)
      with False c show ?thesis by auto
    qed
  qed
qed

lemma codePoints_suffix:
  "codePoints (concat (a @ b)) = a @ b \<Longrightarrow> codePoints (concat b) = b"
proof (induction a)
  case Nil
  then show ?case by simp
next
  case (Cons c a)
  from Cons.prems have "codePoints (concat (c # a @ b)) = c # (a @ b)" by simp
  then have "codePoints (concat (a @ b)) = a @ b" by (rule codePoints_Cons(1))
  then show ?case by (rule Cons.IH)
qed

lemma codePoints_dropWhile:
  "codePoints (concat cs) = cs \<Longrightarrow> codePoints (concat (dropWhile P cs)) = dropWhile P cs"
  using codePoints_suffix [of "takeWhile P cs" "dropWhile P cs"] by simp

lemma replace_words_codePoints:
  assumes "codePoints (concat cps) = cps"
    and "list_all (\<lambda>w. survives U (capitalize U w)) (words U cps)"
  shows "filter (letterOrDigit U) (codePoints (replace_words U cps))
           = concat (map (\<lambda>w. codePoints (capitalize U w)) (words U cps))
     \<and> (replace_words U cps \<noteq> [] \<and> isTrailSurrogate (hd (replace_words U cps)) \<longrightarrow>
          cps \<noteq> [] \<and> \<not> letterOrDigit U (hd cps) \<and> isTrailSurrogate (hd (hd cps)))"
  using assms
proof (induction U cps rule: replace_words.induct)
  case (1 U)
  show ?case by simp
next
  case (2 U c cs)
  let ?P = "letterOrDigit U"
  from "2.prems"(1) have seg: "codePoints (c @ concat cs) = c # cs" by simp
  have tl: "codePoints (concat cs) = cs" using seg by (rule codePoints_Cons(1))
  have c_ne: "c \<noteq> []" using codePoints_not_Nil [of c "c @ concat cs"] seg by simp
  show ?case
  proof (cases "?P c")
    case True
    let ?w = "capitalize U (c # takeWhile ?P cs)"
    let ?rest = "replace_words U (dropWhile ?P cs)"
    have w_eq: "?w = toUpperCase U c @ toLowerCase U (concat (takeWhile ?P cs))"
      by (simp add: capitalize_def)
    from "2.prems"(2) True have surv: "survives U ?w"
      and rest_ok: "list_all (\<lambda>w. survives U (capitalize U w)) (words U (dropWhile ?P cs))"
      by simp_all
    have drop: "codePoints (concat (dropWhile ?P cs)) = dropWhile ?P cs"
      using tl by (rule codePoints_dropWhile)
    have IH: "filter ?P (codePoints ?rest)
        = concat (map (\<lambda>w. codePoints (capitalize U w)) (words U (dropWhile ?P cs)))"
      using "2.IH"(1) [OF True drop rest_ok] by blast
    have split: "codePoints (?w @ ?rest) = codePoints ?w @ codePoints ?rest"
      using surv by (intro codePoints_append) (simp add: survives_def)
    have keep: "filter ?P (codePoints ?w) = codePoints ?w"
      using surv by (simp add: survives_def list_all_iff)
    have out: "replace_words U (c # cs) = ?w @ ?rest"
      using True by (simp add: w_eq)
    have hd: "hd (?w @ ?rest) = hd ?w" and ne: "?w \<noteq> []" and nt: "\<not> isTrailSurrogate (hd ?w)"
      using surv by (simp_all add: survives_def)
    have words: "words U (c # cs) = (c # takeWhile ?P cs) # words U (dropWhile ?P cs)"
      using True by simp
    show ?thesis
      unfolding out words split hd using IH keep nt by simp
  next
    case False
    let ?rest = "replace_words U cs"
    from "2.prems"(2) False
    have rest_ok: "list_all (\<lambda>w. survives U (capitalize U w)) (words U cs)"
      by simp
    note IH = "2.IH"(2) [OF False tl rest_ok]
    have out: "replace_words U (c # cs) = c @ ?rest"
      using False by simp
    have words: "words U (c # cs) = words U cs"
      using False by simp
    have split: "codePoints (c @ ?rest) = c # codePoints ?rest"
    proof -
      from codePoints_Cons(2) [OF seg] consider
        (single) u where "c = [u]"
          "cs \<noteq> [] \<longrightarrow> \<not> (isLeadSurrogate u \<and> isTrailSurrogate (hd (hd cs)))"
        | (pair) u v where "c = [u, v]" "isLeadSurrogate u" "isTrailSurrogate v"
        by blast
      then show ?thesis
      proof cases
        case single
        show ?thesis
        proof (cases ?rest)
          case Nil
          then show ?thesis using single by simp
        next
          case (Cons r rs)
          have "\<not> (isLeadSurrogate u \<and> isTrailSurrogate r)"
          proof
            assume a: "isLeadSurrogate u \<and> isTrailSurrogate r"
            with Cons IH have "cs \<noteq> [] \<and> isTrailSurrogate (hd (hd cs))" by simp
            with single a show False by simp
          qed
          then show ?thesis using single Cons by auto
        qed
      next
        case pair
        then show ?thesis by simp
      qed
    qed
    have hd: "hd (c @ ?rest) = hd c" using c_ne by simp
    show ?thesis
      unfolding out words split hd using False IH by simp
  qed
qed

lemma concat_codePoints_map:
  "concat (concat (map (\<lambda>w. codePoints (f w)) ws)) = concat (map f ws)"
  by (induction ws) (simp_all add: concat_codePoints)

lemma toPascalCase_words:
  assumes "\<not> test_lettersDigits U str"
    and "list_all (\<lambda>w. survives U (capitalize U w)) (words U (codePoints str))"
  shows "toPascalCase U str = concat (map (capitalize U) (words U (codePoints str)))"
proof -
  have "codePoints (concat (codePoints str)) = codePoints str"
    by (simp add: concat_codePoints)
  from replace_words_codePoints [OF this assms(2)]
  have "filter (letterOrDigit U) (codePoints (replace_words U (codePoints str)))
      = concat (map (\<lambda>w. codePoints (capitalize U w)) (words U (codePoints str)))"
    by blast
  then have "remove_others U (replace_words U (codePoints str))
      = concat (map (capitalize U) (words U (codePoints str)))"
    by (simp add: remove_others_def concat_codePoints_map)
  with assms(1) show ?thesis by (simp add: toPascalCase_def)
qed

lemma toPascalCase_examples_ascii:
  "toPascalCase ascii_unicode (lit ''user_sessions'') = lit ''UserSessions''"
  "toPascalCase ascii_unicode (lit ''2fa_codes'') = lit ''2faCodes''"
  by code_simp+

lemma ascii_not_trail: "u < 0x80 \<Longrightarrow> \<not> isTrailSurrogate u"
  unfolding isTrailSurrogate_def by unat_arith

lemma ascii_upper_range:
  "0x61 \<le> u \<Longrightarrow> u \<le> 0x7A \<Longrightarrow> 0x41 \<le> u - 0x20 \<and> u - 0x20 \<le> 0x5A" for u :: code_unit
  by unat_arith

lemma ascii_lower_range:
  "0x41 \<le> u \<Longrightarrow> u \<le> 0x5A \<Longrightarrow> 0x61 \<le> u + 0x20 \<and> u + 0x20 \<le> 0x7A" for u :: code_unit
  by (simp add: word_le_nat_alt unat_word_ariths)

lemma class_ascii_upper:
  "letterOrDigit ascii_unicode [u] \<Longrightarrow> letterOrDigit ascii_unicode [ascii_upper u]"
  using ascii_upper_range [of u]
  by (auto simp: letterOrDigit_def ascii_unicode_def ascii_letter_def digit_def ascii_upper_def)

lemma class_ascii_lower:
  "letterOrDigit ascii_unicode [u] \<Longrightarrow> letterOrDigit ascii_unicode [ascii_lower u]"
  using ascii_lower_range [of u]
  by (auto simp: letterOrDigit_def ascii_unicode_def ascii_letter_def digit_def ascii_lower_def)

lemma survives_ascii:
  assumes U: "ascii_conformant U" and ne: "s \<noteq> []"
    and all: "list_all (\<lambda>u. u < 0x80 \<and> letterOrDigit ascii_unicode [u]) s"
  shows "survives U s"
proof -
  from all have ascii: "isASCII s" by (simp add: isASCII_def list_all_iff)
  from all ne have "hd s < 0x80" "last s < 0x80" by (auto simp: list_all_iff)
  then have ends: "\<not> isTrailSurrogate (hd s)" "\<not> isLeadSurrogate (last s)"
    by (simp_all add: ascii_not_trail ascii_not_lead)
  have "list_all (letterOrDigit U) (map (\<lambda>u. [u]) s)"
    using all by (auto simp: list_all_iff letterOrDigit_ascii [OF U])
  with ne ends show ?thesis by (simp add: survives_def codePoints_ascii [OF ascii])
qed

lemma class_concat:
  "list_all asciiCp cs \<Longrightarrow> list_all (letterOrDigit ascii_unicode) cs \<Longrightarrow>
     list_all (\<lambda>u. u < 0x80 \<and> letterOrDigit ascii_unicode [u]) (concat cs)"
  by (induction cs) (auto simp: asciiCp_def split: list.splits)

lemma survives_ascii_words:
  "ascii_conformant U \<Longrightarrow> list_all asciiCp cps \<Longrightarrow>
     list_all (\<lambda>w. survives U (capitalize U w)) (words U cps)"
proof (induction U cps rule: words.induct)
  case (1 U)
  show ?case by simp
next
  case (2 U c cs)
  let ?P = "letterOrDigit U"
  from "2.prems" have U: "ascii_conformant U" and c: "asciiCp c" and cs: "list_all asciiCp cs"
    by simp_all
  show ?case
  proof (cases "?P c")
    case True
    let ?tw = "takeWhile ?P cs"
    from c obtain u where u: "c = [u]" "u < 0x80"
      by (auto simp: asciiCp_def split: list.splits)
    have cu: "letterOrDigit ascii_unicode [u]"
      using True u letterOrDigit_ascii [OF U] by simp
    have tw_ascii: "list_all asciiCp ?tw" using cs by (rule list_all_takeWhile)
    have "list_all ?P ?tw" by (simp add: list_all_iff) (meson set_takeWhileD)
    then have tw_cls: "list_all (letterOrDigit ascii_unicode) ?tw"
      using tw_ascii by (auto simp: list_all_iff asciiCp_letterOrDigit [OF U])
    have rest: "list_all (\<lambda>u. u < 0x80 \<and> letterOrDigit ascii_unicode [u]) (concat ?tw)"
      using tw_ascii tw_cls by (rule class_concat)
    have "isASCII (concat ?tw)" using tw_ascii by (rule isASCII_concat)
    then have cap: "capitalize U (c # ?tw) = ascii_upper u # map ascii_lower (concat ?tw)"
      using u by (simp add: capitalize_def toUpperCase_ascii [OF U] toLowerCase_ascii [OF U] isASCII_def)
    have "list_all (\<lambda>u. u < 0x80 \<and> letterOrDigit ascii_unicode [u])
        (ascii_upper u # map ascii_lower (concat ?tw))"
      using u cu rest
      by (auto simp: list_all_iff ascii_upper_ascii ascii_lower_ascii class_ascii_upper class_ascii_lower)
    then have "survives U (capitalize U (c # ?tw))"
      unfolding cap by (intro survives_ascii [OF U]) simp_all
    moreover have "list_all (\<lambda>w. survives U (capitalize U w)) (words U (dropWhile ?P cs))"
      using True U cs by (intro "2.IH"(1) list_all_dropWhile)
    ultimately show ?thesis using True by simp
  next
    case False
    have "list_all (\<lambda>w. survives U (capitalize U w)) (words U cs)"
      using False U cs by (intro "2.IH"(2))
    with False show ?thesis by simp
  qed
qed

lemma toPascalCase_words_ascii:
  assumes "ascii_conformant U" and "isASCII str" and "\<not> test_lettersDigits U str"
  shows "toPascalCase U str = concat (map (capitalize U) (words U (codePoints str)))"
proof -
  have "list_all asciiCp (codePoints str)"
    using assms(2) by (simp add: codePoints_ascii list_all_map_asciiCp)
  with assms(1) have "list_all (\<lambda>w. survives U (capitalize U w)) (words U (codePoints str))"
    by (rule survives_ascii_words)
  with assms(3) show ?thesis by (rule toPascalCase_words)
qed

text \<open>
  Claim C2, as amended. \<^verbatim>\<open>toPascalCase("user_sessions")\<close> is \<^verbatim>\<open>"UserSessions"\<close> and
  \<^verbatim>\<open>toPascalCase("2fa_codes")\<close> is \<^verbatim>\<open>"2faCodes"\<close>. For a string with a separator, each maximal
  run of letters and digits has its first character upper-cased and the remainder
  lower-cased (a digit that starts a run is this first character, and the letters after it
  are lower-cased), the results are concatenated and the separators dropped, provided
  each result is still made of letters and digits; for an ASCII string it always is.
\<close>

theorem toPascalCase_runs:
  "(ascii_conformant U \<longrightarrow>
      toPascalCase U (lit ''user_sessions'') = lit ''UserSessions'' \<and>
      toPascalCase U (lit ''2fa_codes'') = lit ''2faCodes'')
   \<and> (\<not> test_lettersDigits U str \<and>
       list_all (\<lambda>w. survives U (capitalize U w)) (words U (codePoints str)) \<longrightarrow>
         toPascalCase U str = concat (map (capitalize U) (words U (codePoints str))))
   \<and> (ascii_conformant U \<and> isASCII str \<and> \<not> test_lettersDigits U str \<longrightarrow>
         toPascalCase U str = concat (map (capitalize U) (words U (codePoints str))))"
proof -
  have "isASCII (lit ''user_sessions'')" "isASCII (lit ''2fa_codes'')"
    by (simp_all add: isASCII_def lit_def)
  then have "ascii_conformant U \<longrightarrow>
      toPascalCase U (lit ''user_sessions'') = lit ''UserSessions'' \<and>
      toPascalCase U (lit ''2fa_codes'') = lit ''2faCodes''"
    by (simp add: toPascalCase_ascii toPascalCase_examples_ascii)
  then show ?thesis
    using toPascalCase_words [of U str] toPascalCase_words_ascii [of U str] by blast
qed

theorem toPascalCase_runs_witness:
  "ascii_conformant ascii_unicode
   \<and> toPascalCase ascii_unicode (lit ''user_sessions'') = lit ''UserSessions''
   \<and> toPascalCase ascii_unicode (lit ''2fa_codes'') = lit ''2faCodes''
   \<and> isASCII (lit ''2fa_codes'')
   \<and> \<not> test_lettersDigits ascii_unicode (lit ''2fa_codes'')
   \<and> words ascii_unicode (codePoints (lit ''2fa_codes''))
       = [[lit ''2'', lit ''f'', lit ''a''], [lit ''c'', lit ''o'', lit ''d'', lit ''e'', lit ''s'']]
   \<and> list_all (\<lambda>w. survives ascii_unicode (capitalize ascii_unicode w))
        (words ascii_unicode (codePoints (lit ''2fa_codes'')))
   \<and> toPascalCase ascii_unicode (lit ''2fa_codes'')
       = concat (map (capitalize ascii_unicode) (words ascii_unicode (codePoints (lit ''2fa_codes''))))"
proof -
  have 1: "\<not> test_lettersDigits ascii_unicode (lit ''2fa_codes'')"
    by code_simp
  have 2: "words ascii_unicode (codePoints (lit ''2fa_codes''))
       = [[lit ''2'', lit ''f'', lit ''a''], [lit ''c'', lit ''o'', lit ''d'', lit ''e'', lit ''s'']]"
    by code_simp
  have 3: "list_all (\<lambda>w. survives ascii_unicode (capitalize ascii_unicode w))
        (words ascii_unicode (codePoints (lit ''2fa_codes'')))"
    by code_simp
  have 4: "isASCII (lit ''2fa_codes'')"
    by code_simp
  from toPascalCase_runs [of ascii_unicode "lit ''2fa_codes''"] ascii_conformant_ascii_unicode 1 2 3 4
  show ?thesis by blast
qed

text \<open>
  Claim C2 as stated has \<^verbatim>\<open>toPascalCase("2fa_codes")\<close> be \<^verbatim>\<open>"2FaCodes"\<close>. The run \<^verbatim>\<open>2fa\<close> starts
  with the digit, so its letters are lower-cased.
\<close>

theorem toPascalCase_2fa_counterexample:
  "toPascalCase ascii_unicode (lit ''2fa_codes'') = lit ''2faCodes''
   \<and> toPascalCase ascii_unicode (lit ''2fa_codes'') \<noteq> lit ''2FaCodes''"
  by (simp add: toPascalCase_examples_ascii) (simp add: lit_def)

end
